theory Spec2Isabelle
  imports Complex_Main "HOL-Library.Word"
begin

section \<open>The DTMF demonstration of the vDSP examples (DTMF.c)\<close>

text \<open>
  The embedding follows \<^verbatim>\<open>src/vDSPExamples/DTMF.c\<close> function by function and keeps
  its names.  The generator state \<^verbatim>\<open>Seed\<close> is a 32-bit word that every call takes and
  returns.  An array access is checked against the extent of the array it reads and is
  a \<open>fault\<close> outside of it, where C leaves the behaviour undefined.

  The arithmetic on \<^verbatim>\<open>float\<close> and \<^verbatim>\<open>double\<close> is IEEE 754 arithmetic: every
  operation is evaluated in the type that C gives it and rounded to nearest, ties to
  even, on its own (\<^verbatim>\<open>FLT_EVAL_METHOD\<close> 0, no contracted operations), with infinities
  and NaN.  The key table holds frequencies that are small integers, and a finite value
  of these types is the real number it denotes.  \<^verbatim>\<open>FindTone\<close> is embedded twice: with
  exact arithmetic on the reals, for the properties of its control flow and for the index
  of a frequency where no operation rounds, and with IEEE arithmetic (names ending in
  \<open>_ieee\<close>) for the properties of the values it computes.
\<close>

subsection \<open>Constants\<close>

definition Log2SampleLength :: nat where
  "Log2SampleLength = 8"

definition SampleLength :: nat where
  "SampleLength = 2 ^ Log2SampleLength"

definition SamplingFrequency :: int where
  "SamplingFrequency = 3266"

subsection \<open>The pseudo-random number generator\<close>

type_synonym uint32_t = "32 word"

text \<open>
  \<^verbatim>\<open>Seed = 1664525 * Seed + 1013904223; return (Seed >> 8) * (1.f/16777216);\<close>
  The function returns the value and the new \<^verbatim>\<open>Seed\<close>.  The shifted seed is below
  \<open>2 ^ 24\<close> and the factor is a power of two, so the product in \<^verbatim>\<open>float\<close> is the
  exact quotient.
\<close>

definition Random :: "uint32_t \<Rightarrow> real \<times> uint32_t" where
  "Random Seed =
     (let Seed' = 1664525 * Seed + 1013904223
      in (real (unat (drop_bit 8 Seed')) * (1 / 16777216), Seed'))"

text \<open>\<open>n\<close> successive calls of \<^verbatim>\<open>Random\<close>: the values in call order, and the last seed.\<close>

fun Random_calls :: "nat \<Rightarrow> uint32_t \<Rightarrow> real list \<times> uint32_t" where
  "Random_calls 0 Seed = ([], Seed)"
| "Random_calls (Suc n) Seed =
     (let (v, Seed') = Random Seed;
          (vs, Seed'') = Random_calls n Seed'
      in (v # vs, Seed''))"

subsection \<open>Array accesses\<close>

datatype fault = OutOfBounds | IntConversion

text \<open>An array is the list of its elements; an index outside of it is a fault.\<close>

definition array_read :: "'a list \<Rightarrow> int \<Rightarrow> fault + 'a" where
  "array_read a i =
     (if 0 \<le> i \<and> i < int (length a) then Inr (a ! nat i) else Inl OutOfBounds)"

text \<open>
  A \<^verbatim>\<open>float *\<close> is the allocation it points into and the element offset of the
  pointer in it, so that \<^verbatim>\<open>p[i]\<close> reads element \<open>offset + i\<close> of the allocation.
\<close>

type_synonym float_ptr = "real list \<times> int"

definition ptr_read :: "float_ptr \<Rightarrow> int \<Rightarrow> fault + real" where
  "ptr_read p i = array_read (fst p) (snd p + i)"

text \<open>
  The conversion of a \<^verbatim>\<open>double\<close> to \<^verbatim>\<open>int\<close> discards the fractional part
  (truncation toward zero); it is undefined when the result is not an \<^verbatim>\<open>int\<close>.
\<close>

definition double_to_int :: "real \<Rightarrow> fault + int" where
  "double_to_int x =
     (let t = (if 0 \<le> x then \<lfloor>x\<rfloor> else \<lceil>x\<rceil>)
      in if - (2 ^ 31) \<le> t \<and> t < 2 ^ 31 then Inr t else Inl IntConversion)"

subsection \<open>The key table\<close>

record FrequencyPair =
  Frequency :: "real \<times> real"

definition Keys :: string where
  "Keys = ''123A456B789C*0#D''"

definition DTMF0 :: "real list" where
  "DTMF0 = [1209, 1336, 1477, 1633]"

definition DTMF1 :: "real list" where
  "DTMF1 = [697, 770, 852, 941]"

definition NUL :: char where
  "NUL = CHR 0x00"

text \<open>
  Modelled from the C standard library: \<^verbatim>\<open>strchr(s, c)\<close> finds the first occurrence of
  \<open>c\<close> in the string \<open>s\<close>, whose terminating null character is part of the string;
  the result is the offset of the occurrence, or \<open>None\<close> for the null pointer.
\<close>

fun strchr :: "string \<Rightarrow> char \<Rightarrow> nat option" where
  "strchr [] c = (if c = NUL then Some 0 else None)"
| "strchr (x # s) c = (if x = c then Some 0 else map_option Suc (strchr s c))"

definition ConvertKeyToFrequencies :: "char \<Rightarrow> fault + FrequencyPair" where
  "ConvertKeyToFrequencies Key =
     (case strchr Keys Key of
        None \<Rightarrow> Inr \<lparr>Frequency = (0, 0)\<rparr>
      | Some n \<Rightarrow>
          (case array_read DTMF0 (int n mod 4) of
             Inl e \<Rightarrow> Inl e
           | Inr f0 \<Rightarrow>
               (case array_read DTMF1 (int n div 4) of
                  Inl e \<Rightarrow> Inl e
                | Inr f1 \<Rightarrow> Inr \<lparr>Frequency = (f0, f1)\<rparr>)))"

subsection \<open>Finding a tone in the transform's output\<close>

text \<open>
  \<^verbatim>\<open>FindTone\<close> with exact arithmetic: a frequency and an element of the buffer is the
  real number that the \<^verbatim>\<open>float\<close> denotes, and no operation rounds.
\<close>

record DSPSplitComplex =
  realp :: float_ptr
  imagp :: float_ptr

text \<open>
  \<^verbatim>\<open>int index = Frequencies[i] / SamplingFrequency * SampleLength + .5;\<close>
\<close>

definition bin_index :: "real \<Rightarrow> fault + int" where
  "bin_index f =
     double_to_int (f / real_of_int SamplingFrequency * real SampleLength + 0.5)"

text \<open>The body of the loop up to \<^verbatim>\<open>Value\<close>, for candidate \<open>i\<close>.\<close>

definition candidate_Value :: "DSPSplitComplex \<Rightarrow> real list \<Rightarrow> int \<Rightarrow> fault + real" where
  "candidate_Value Buffer Frequencies i =
     (case array_read Frequencies i of
        Inl e \<Rightarrow> Inl e
      | Inr f \<Rightarrow>
          (case bin_index f of
             Inl e \<Rightarrow> Inl e
           | Inr index \<Rightarrow>
               (case ptr_read (realp Buffer) index of
                  Inl e \<Rightarrow> Inl e
                | Inr re \<Rightarrow>
                    (case ptr_read (imagp Buffer) index of
                       Inl e \<Rightarrow> Inl e
                     | Inr im \<Rightarrow> Inr (re * re + im * im)))))"

function FindTone_loop ::
  "DSPSplitComplex \<Rightarrow> real list \<Rightarrow> int \<Rightarrow> int \<Rightarrow> real \<Rightarrow> int \<Rightarrow> fault + int" where
  "FindTone_loop Buffer Frequencies N i MaximumValue MaximumIndex =
     (if i < N then
        (case candidate_Value Buffer Frequencies i of
           Inl e \<Rightarrow> Inl e
         | Inr Value \<Rightarrow>
             (if MaximumValue < Value
              then FindTone_loop Buffer Frequencies N (i + 1) Value i
              else FindTone_loop Buffer Frequencies N (i + 1) MaximumValue MaximumIndex))
      else Inr MaximumIndex)"
  by pat_completeness auto
termination
  by (relation "measure (\<lambda>(Buffer, Frequencies, N, i, MaximumValue, MaximumIndex). nat (N - i))")
     auto

definition FindTone :: "DSPSplitComplex \<Rightarrow> real list \<Rightarrow> int \<Rightarrow> fault + int" where
  "FindTone Buffer Frequencies N = FindTone_loop Buffer Frequencies N 0 (- 1) 0"

subsection \<open>IEEE 754 arithmetic\<close>

text \<open>
  The values of the types \<^verbatim>\<open>float\<close> and \<^verbatim>\<open>double\<close>: the finite ones, given by the
  real number they denote, the two infinities and NaN.  The two zeroes are not told
  apart: the program does not divide by a zero and does not look at the sign of one.
\<close>

datatype fp = Finite real | PlusInfinity | MinusInfinity | NaN

text \<open>The nearest integer, the even one of two that are equally near.\<close>

definition round_even :: "real \<Rightarrow> int" where
  "round_even x =
     (let n = \<lfloor>x\<rfloor>; d = x - of_int n
      in if d < 1 / 2 then n else if 1 / 2 < d then n + 1 else if even n then n else n + 1)"

text \<open>
  The exponent \<open>e\<close> of a positive number \<open>x\<close>, with \<open>2 ^ e \<le> x < 2 ^ (e + 1)\<close>: the
  number of times that \<open>x\<close> is halved until it is below 2, or doubled until it is 1 at
  least.
\<close>

function exponent_up :: "real \<Rightarrow> int" where
  "exponent_up x = (if x < 2 then 0 else exponent_up (x / 2) + 1)"
  by pat_completeness auto
termination
proof (relation "measure (\<lambda>x. nat \<lceil>x\<rceil>)")
  show "wf (measure (\<lambda>x :: real. nat \<lceil>x\<rceil>))" by simp
next
  fix x :: real assume "\<not> x < 2"
  then have "x / 2 \<le> x - 1" by simp
  then have "\<lceil>x / 2\<rceil> \<le> \<lceil>x - 1\<rceil>" by (rule ceiling_mono)
  moreover have "0 < \<lceil>x\<rceil>" using \<open>\<not> x < 2\<close> by simp
  ultimately show "(x / 2, x) \<in> measure (\<lambda>x. nat \<lceil>x\<rceil>)" by simp
qed

function exponent_down :: "real \<Rightarrow> int" where
  "exponent_down x = (if 1 \<le> x \<or> x \<le> 0 then 0 else exponent_down (2 * x) - 1)"
  by pat_completeness auto
termination
proof (relation "measure (\<lambda>x. nat \<lceil>1 / x\<rceil>)")
  show "wf (measure (\<lambda>x :: real. nat \<lceil>1 / x\<rceil>))" by simp
next
  fix x :: real assume a: "\<not> (1 \<le> x \<or> x \<le> 0)"
  then have "1 < 1 / x" by simp
  then have "1 < \<lceil>1 / x\<rceil>" by (simp add: less_ceiling_iff)
  then have "real_of_int \<lceil>1 / x\<rceil> / 2 \<le> real_of_int (\<lceil>1 / x\<rceil> - 1)" by simp
  moreover have "1 / (2 * x) \<le> real_of_int \<lceil>1 / x\<rceil> / 2"
    using le_of_int_ceiling [of "1 / x"] by simp
  ultimately have "1 / (2 * x) \<le> real_of_int (\<lceil>1 / x\<rceil> - 1)" by linarith
  then have "\<lceil>1 / (2 * x)\<rceil> \<le> \<lceil>1 / x\<rceil> - 1" by (simp only: ceiling_le_iff)
  then show "(2 * x, x) \<in> measure (\<lambda>x. nat \<lceil>1 / x\<rceil>)"
    using a by simp
qed

definition exponent_of :: "real \<Rightarrow> int" where
  "exponent_of x = (if 1 \<le> x then exponent_up x else exponent_down x)"

text \<open>
  Rounding to nearest, ties to even, in a binary format with \<open>p\<close> significant bits and
  the least exponent \<open>emin\<close>: the result is a multiple of \<open>2 ^ (e - p + 1)\<close>, where
  \<open>e\<close> is the exponent of \<open>|x|\<close>, and of \<open>2 ^ (emin - p + 1)\<close> in the subnormal range.
\<close>

definition round_binary :: "nat \<Rightarrow> int \<Rightarrow> real \<Rightarrow> real" where
  "round_binary p emin x =
     (if x = 0 then 0
      else
        (let e = max (exponent_of \<bar>x\<bar>) emin - (int p - 1)
         in of_int (round_even (x / 2 powi e)) * 2 powi e))"

text \<open>A rounded value beyond the greatest exponent \<open>emax\<close> of the format is an infinity.\<close>

definition to_format :: "nat \<Rightarrow> int \<Rightarrow> int \<Rightarrow> real \<Rightarrow> fp" where
  "to_format p emin emax x =
     (let y = round_binary p emin x
      in if 2 powi (emax + 1) \<le> \<bar>y\<bar>
         then (if 0 < x then PlusInfinity else MinusInfinity)
         else Finite y)"

definition to_float :: "real \<Rightarrow> fp" where
  "to_float = to_format 24 (- 126) 127"

definition to_double :: "real \<Rightarrow> fp" where
  "to_double = to_format 53 (- 1022) 1023"

text \<open>
  The operations that the program uses.  Each takes the rounding of the type in which C
  evaluates it (\<open>to_float\<close> for two \<^verbatim>\<open>float\<close> operands, \<open>to_double\<close> when one is a
  \<^verbatim>\<open>double\<close>) and rounds once, on its own.  \<open>fp_less\<close> is the comparison \<^verbatim>\<open><\<close>, which
  is false when an operand is NaN.
\<close>

fun fp_less :: "fp \<Rightarrow> fp \<Rightarrow> bool" where
  "fp_less NaN b = False"
| "fp_less a NaN = False"
| "fp_less (Finite x) (Finite y) = (x < y)"
| "fp_less (Finite x) PlusInfinity = True"
| "fp_less (Finite x) MinusInfinity = False"
| "fp_less PlusInfinity b = False"
| "fp_less MinusInfinity (Finite y) = True"
| "fp_less MinusInfinity PlusInfinity = True"
| "fp_less MinusInfinity MinusInfinity = False"

fun fp_negative :: "fp \<Rightarrow> bool" where
  "fp_negative (Finite x) = (x < 0)"
| "fp_negative MinusInfinity = True"
| "fp_negative a = False"

definition fp_mul :: "(real \<Rightarrow> fp) \<Rightarrow> fp \<Rightarrow> fp \<Rightarrow> fp" where
  "fp_mul rnd a b =
     (case (a, b) of
        (Finite x, Finite y) \<Rightarrow> rnd (x * y)
      | _ \<Rightarrow>
          if a = NaN \<or> b = NaN \<or> a = Finite 0 \<or> b = Finite 0 then NaN
          else if fp_negative a = fp_negative b then PlusInfinity
          else MinusInfinity)"

definition fp_add :: "(real \<Rightarrow> fp) \<Rightarrow> fp \<Rightarrow> fp \<Rightarrow> fp" where
  "fp_add rnd a b =
     (case (a, b) of
        (Finite x, Finite y) \<Rightarrow> rnd (x + y)
      | _ \<Rightarrow>
          if a = NaN \<or> b = NaN then NaN
          else if (a = PlusInfinity \<and> b = MinusInfinity) \<or> (a = MinusInfinity \<and> b = PlusInfinity)
          then NaN
          else if a = PlusInfinity \<or> b = PlusInfinity then PlusInfinity
          else MinusInfinity)"

text \<open>
  The division by a finite divisor \<open>d\<close> that is not zero; the program divides by the
  constant \<^verbatim>\<open>SamplingFrequency\<close> only.
\<close>

definition fp_div :: "(real \<Rightarrow> fp) \<Rightarrow> fp \<Rightarrow> real \<Rightarrow> fp" where
  "fp_div rnd a d =
     (case a of
        Finite x \<Rightarrow> rnd (x / d)
      | PlusInfinity \<Rightarrow> (if 0 < d then PlusInfinity else MinusInfinity)
      | MinusInfinity \<Rightarrow> (if 0 < d then MinusInfinity else PlusInfinity)
      | NaN \<Rightarrow> NaN)"

text \<open>The conversion of a value to a narrower type, as in the assignment to a \<^verbatim>\<open>float\<close>.\<close>

definition fp_round :: "(real \<Rightarrow> fp) \<Rightarrow> fp \<Rightarrow> fp" where
  "fp_round rnd a = (case a of Finite x \<Rightarrow> rnd x | _ \<Rightarrow> a)"

text \<open>The conversion to \<^verbatim>\<open>int\<close>, undefined for an infinity and for NaN as well.\<close>

definition fp_to_int :: "fp \<Rightarrow> fault + int" where
  "fp_to_int a = (case a of Finite x \<Rightarrow> double_to_int x | _ \<Rightarrow> Inl IntConversion)"

text \<open>
  Modelled from the C standard library: \<^verbatim>\<open>sin\<close> of an infinity or of NaN is NaN.  Of a
  finite \<^verbatim>\<open>double\<close> it is an approximation of the sine whose accuracy the library
  determines: the parameter \<open>c_sin\<close> is the library's function on the finite values.
\<close>

definition fp_sin :: "(real \<Rightarrow> real) \<Rightarrow> fp \<Rightarrow> fp" where
  "fp_sin c_sin a = (case a of Finite x \<Rightarrow> Finite (c_sin x) | _ \<Rightarrow> NaN)"

subsection \<open>Finding a tone, in IEEE arithmetic\<close>

text \<open>
  \<^verbatim>\<open>FindTone\<close> once more, with the arithmetic of the program: the frequencies and the
  contents of the buffer are values of type \<^verbatim>\<open>float\<close>, and every operation is rounded.
\<close>

type_synonym fp_ptr = "fp list \<times> int"

definition ptr_read_ieee :: "fp_ptr \<Rightarrow> int \<Rightarrow> fault + fp" where
  "ptr_read_ieee p i = array_read (fst p) (snd p + i)"

record DSPSplitComplex_ieee =
  realp_ieee :: fp_ptr
  imagp_ieee :: fp_ptr

text \<open>
  \<^verbatim>\<open>Frequencies[i] / SamplingFrequency * SampleLength + .5\<close>: the quotient and the product
  are of type \<^verbatim>\<open>float\<close> (the two \<^verbatim>\<open>int\<close> constants are converted to it), the sum is of
  type \<^verbatim>\<open>double\<close>.
\<close>

definition scaled_ieee :: "fp \<Rightarrow> fp" where
  "scaled_ieee f =
     fp_add to_double
       (fp_mul to_float (fp_div to_float f (real_of_int SamplingFrequency))
          (to_float (real SampleLength)))
       (Finite (1 / 2))"

definition bin_index_ieee :: "fp \<Rightarrow> fault + int" where
  "bin_index_ieee f = fp_to_int (scaled_ieee f)"

text \<open>\<^verbatim>\<open>float Value = re*re + im*im;\<close>\<close>

definition Value_ieee :: "fp \<Rightarrow> fp \<Rightarrow> fp" where
  "Value_ieee re im = fp_add to_float (fp_mul to_float re re) (fp_mul to_float im im)"

definition candidate_Value_ieee ::
  "DSPSplitComplex_ieee \<Rightarrow> fp list \<Rightarrow> int \<Rightarrow> fault + fp" where
  "candidate_Value_ieee Buffer Frequencies i =
     (case array_read Frequencies i of
        Inl e \<Rightarrow> Inl e
      | Inr f \<Rightarrow>
          (case bin_index_ieee f of
             Inl e \<Rightarrow> Inl e
           | Inr index \<Rightarrow>
               (case ptr_read_ieee (realp_ieee Buffer) index of
                  Inl e \<Rightarrow> Inl e
                | Inr re \<Rightarrow>
                    (case ptr_read_ieee (imagp_ieee Buffer) index of
                       Inl e \<Rightarrow> Inl e
                     | Inr im \<Rightarrow> Inr (Value_ieee re im)))))"

function FindTone_loop_ieee ::
  "DSPSplitComplex_ieee \<Rightarrow> fp list \<Rightarrow> int \<Rightarrow> int \<Rightarrow> fp \<Rightarrow> int \<Rightarrow> fault + int" where
  "FindTone_loop_ieee Buffer Frequencies N i MaximumValue MaximumIndex =
     (if i < N then
        (case candidate_Value_ieee Buffer Frequencies i of
           Inl e \<Rightarrow> Inl e
         | Inr Value \<Rightarrow>
             (if fp_less MaximumValue Value
              then FindTone_loop_ieee Buffer Frequencies N (i + 1) Value i
              else FindTone_loop_ieee Buffer Frequencies N (i + 1) MaximumValue MaximumIndex))
      else Inr MaximumIndex)"
  by pat_completeness auto
termination
  by (relation "measure (\<lambda>(Buffer, Frequencies, N, i, MaximumValue, MaximumIndex). nat (N - i))")
     auto

definition FindTone_ieee :: "DSPSplitComplex_ieee \<Rightarrow> fp list \<Rightarrow> int \<Rightarrow> fault + int" where
  "FindTone_ieee Buffer Frequencies N =
     FindTone_loop_ieee Buffer Frequencies N 0 (Finite (- 1)) 0"

subsection \<open>Generating the signal and detecting the key\<close>

text \<open>
  \<^verbatim>\<open>static const double_t TwoPi = 0x3.243f6a8885a308d313198a2e03707344ap1;\<close>
  with \<^verbatim>\<open>double_t\<close> the type \<^verbatim>\<open>double\<close>.
\<close>

definition TwoPi :: fp where
  "TwoPi = to_double (0x3243F6A8885A308D313198A2E03707344A / 16 ^ 33 * 2)"

text \<open>
  \<^verbatim>\<open>for (int i = 0; i < SampleLength; ++i) Signal[i] = 4 * Random();\<close>
  with \<open>n\<close> the number of iterations left; the samples are listed from the current index on.
\<close>

fun noise_loop :: "nat \<Rightarrow> uint32_t \<Rightarrow> fp list \<times> uint32_t" where
  "noise_loop 0 Seed = ([], Seed)"
| "noise_loop (Suc n) Seed =
     (let (r, Seed') = Random Seed;
          (Signal, Seed'') = noise_loop n Seed'
      in (fp_mul to_float (to_float 4) (Finite r) # Signal, Seed''))"

text \<open>
  \<^verbatim>\<open>Signal[i] += sin((i*F.Frequency[k] / SamplingFrequency + Phase) * TwoPi);\<close>
  The sum in the parentheses, \<open>tone_phase\<close>, is of type \<^verbatim>\<open>float\<close>; its product with
  \<^verbatim>\<open>TwoPi\<close>, the sine and the sum with \<^verbatim>\<open>Signal[i]\<close> are of type \<^verbatim>\<open>double\<close>, and the
  assignment converts to \<^verbatim>\<open>float\<close>.
\<close>

definition tone_phase :: "fp \<Rightarrow> fp \<Rightarrow> nat \<Rightarrow> fp" where
  "tone_phase f Phase i =
     fp_add to_float
       (fp_div to_float (fp_mul to_float (to_float (real i)) f) (real_of_int SamplingFrequency))
       Phase"

definition add_tone :: "(real \<Rightarrow> real) \<Rightarrow> fp \<Rightarrow> fp \<Rightarrow> nat \<Rightarrow> fp \<Rightarrow> fp" where
  "add_tone c_sin f Phase i x =
     fp_round to_float
       (fp_add to_double x (fp_sin c_sin (fp_mul to_double (tone_phase f Phase i) TwoPi)))"

text \<open>The loop that adds a tone, over the samples from index \<open>i\<close> on.\<close>

fun tone_loop :: "(real \<Rightarrow> real) \<Rightarrow> fp \<Rightarrow> fp \<Rightarrow> nat \<Rightarrow> fp list \<Rightarrow> fp list" where
  "tone_loop c_sin f Phase i [] = []"
| "tone_loop c_sin f Phase i (x # Signal) =
     add_tone c_sin f Phase i x # tone_loop c_sin f Phase (Suc i) Signal"

text \<open>
  The first half of \<^verbatim>\<open>Demonstrate\<close>: the signal, and the seed after its draws.  \<open>F\<close> is
  the pair \<^verbatim>\<open>F.Frequency[0]\<close>, \<^verbatim>\<open>F.Frequency[1]\<close>, of any two values of type
  \<^verbatim>\<open>float\<close>.
\<close>

definition generate_signal ::
  "(real \<Rightarrow> real) \<Rightarrow> fp \<times> fp \<Rightarrow> uint32_t \<Rightarrow> fp list \<times> uint32_t" where
  "generate_signal c_sin F Seed =
     (let (Signal, Seed1) = noise_loop SampleLength Seed;
          (Phase0, Seed2) = Random Seed1;
          Signal0 = tone_loop c_sin (fst F) (Finite Phase0) 0 Signal;
          (Phase1, Seed3) = Random Seed2;
          Signal1 = tone_loop c_sin (snd F) (Finite Phase1) 0 Signal0
      in (Signal1, Seed3))"

text \<open>
  Modelled from the spec: \<^verbatim>\<open>vDSP_ctoz\<close> belongs to the external library.  It puts the
  even-indexed samples into the first array and the odd-indexed samples into the second.
\<close>

fun ctoz :: "'a list \<Rightarrow> 'a list \<times> 'a list" where
  "ctoz (a # b # Signal) = (let (A, B) = ctoz Signal in (a # A, b # B))"
| "ctoz Signal = ([], [])"

text \<open>
  \<^verbatim>\<open>Keys[Tone1*4 + Tone0]\<close>, the key that \<^verbatim>\<open>Demonstrate\<close> prints; the array
  \<^verbatim>\<open>Keys\<close> ends with the null character of its initialiser.
\<close>

definition found_key :: "int \<Rightarrow> int \<Rightarrow> fault + char" where
  "found_key Tone0 Tone1 = array_read (Keys @ [NUL]) (Tone1 * 4 + Tone0)"

text \<open>
  \<^verbatim>\<open>Demonstrate\<close>, with both allocations succeeding.  The transform
  \<^verbatim>\<open>vDSP_fft_zrip\<close> of the external library is the parameter \<open>fft_zrip\<close>, a function
  on the contents of \<^verbatim>\<open>BufferMemory\<close>, which holds both arrays of \<^verbatim>\<open>Buffer\<close>.  The
  result is the two frequencies and the key of the last message, and the new seed.
\<close>

definition Demonstrate ::
  "(real \<Rightarrow> real) \<Rightarrow> (fp list \<Rightarrow> fp list) \<Rightarrow> FrequencyPair \<Rightarrow> uint32_t
     \<Rightarrow> fault + ((real \<times> real \<times> char) \<times> uint32_t)" where
  "Demonstrate c_sin fft_zrip F Seed =
     (let (Signal, Seed') =
            generate_signal c_sin (Finite (fst (Frequency F)), Finite (snd (Frequency F))) Seed;
          (A, B) = ctoz Signal;
          BufferMemory = fft_zrip (A @ B);
          Buffer = \<lparr>realp_ieee = (BufferMemory, 0),
                    imagp_ieee = (BufferMemory, int (SampleLength div 2))\<rparr>
      in case FindTone_ieee Buffer (map Finite DTMF0) (int (length DTMF0)) of
           Inl e \<Rightarrow> Inl e
         | Inr Tone0 \<Rightarrow>
             (case FindTone_ieee Buffer (map Finite DTMF1) (int (length DTMF1)) of
                Inl e \<Rightarrow> Inl e
              | Inr Tone1 \<Rightarrow>
                  (case array_read DTMF0 Tone0 of
                     Inl e \<Rightarrow> Inl e
                   | Inr f0 \<Rightarrow>
                       (case array_read DTMF1 Tone1 of
                          Inl e \<Rightarrow> Inl e
                        | Inr f1 \<Rightarrow>
                            (case found_key Tone0 Tone1 of
                               Inl e \<Rightarrow> Inl e
                             | Inr k \<Rightarrow> Inr ((f0, f1, k), Seed'))))))"

subsection \<open>The main program\<close>

text \<open>
  Modelled from the C standard library, in the "C" locale: \<^verbatim>\<open>toupper\<close> maps the
  lower-case letters to the upper-case ones and nothing else; \<^verbatim>\<open>isspace\<close> holds of
  space, tab, newline, vertical tab, form feed and carriage return.
\<close>

definition toupper :: "char \<Rightarrow> char" where
  "toupper c =
     (case map_of (zip ''abcdefghijklmnopqrstuvwxyz'' ''ABCDEFGHIJKLMNOPQRSTUVWXYZ'') c of
        None \<Rightarrow> c
      | Some u \<Rightarrow> u)"

definition isspace :: "char \<Rightarrow> bool" where
  "isspace c = (c \<in> set [CHR 0x20, CHR 0x09, CHR 0x0A, CHR 0x0B, CHR 0x0C, CHR 0x0D])"

definition newline :: char where
  "newline = CHR 0x0A"

text \<open>
  What the program does, in order: a prompt, the message \<^verbatim>\<open>Simulating key c\<close>, a call
  of \<^verbatim>\<open>Demonstrate\<close> with a frequency pair, the message \<^verbatim>\<open>key c not recognized\<close> on
  the standard error stream, the final newline of the interactive mode, the usage message.
\<close>

datatype event =
  Prompt
| Simulating char
| Demonstration FrequencyPair
| NotRecognized char
| EndLine
| Usage

text \<open>
  The loop over the characters of \<^verbatim>\<open>argv[1]\<close>, which ends at the null character.
\<close>

fun argument_keys :: "string \<Rightarrow> fault + event list" where
  "argument_keys [] = Inr []"
| "argument_keys (c # p) =
     (if c = NUL then Inr []
      else
        (case ConvertKeyToFrequencies (toupper c) of
           Inl e \<Rightarrow> Inl e
         | Inr F \<Rightarrow>
             (case argument_keys p of
                Inl e \<Rightarrow> Inl e
              | Inr out \<Rightarrow>
                  Inr ((if fst (Frequency F) \<noteq> 0
                        then [Simulating c, Demonstration F]
                        else [NotRecognized c]) @ out))))"

text \<open>
  The interactive loop reads the standard input, given as the list of its characters
  (its end is \<^verbatim>\<open>EOF\<close>).  \<open>prompt_loop\<close> is the program after a prompt, in the loop that
  skips white space; \<open>rest_of_line\<close> is the program after a key, in the loop that skips
  the rest of the line.
\<close>

fun prompt_loop :: "string \<Rightarrow> fault + event list"
  and rest_of_line :: "string \<Rightarrow> fault + event list" where
  "prompt_loop [] = Inr [EndLine]"
| "prompt_loop (c # input) =
     (if c \<noteq> newline \<and> isspace c then prompt_loop input
      else if c = newline then Inr []
      else
        (case ConvertKeyToFrequencies (toupper c) of
           Inl e \<Rightarrow> Inl e
         | Inr F \<Rightarrow>
             (case rest_of_line input of
                Inl e \<Rightarrow> Inl e
              | Inr out \<Rightarrow>
                  Inr ((if fst (Frequency F) \<noteq> 0 then [Demonstration F] else []) @ out))))"
| "rest_of_line [] = Inr [EndLine]"
| "rest_of_line (c # input) =
     (if c = newline
      then (case prompt_loop input of Inl e \<Rightarrow> Inl e | Inr out \<Rightarrow> Inr (Prompt # out))
      else rest_of_line input)"

definition interactive_keys :: "string \<Rightarrow> fault + event list" where
  "interactive_keys input =
     (case prompt_loop input of Inl e \<Rightarrow> Inl e | Inr out \<Rightarrow> Inr (Prompt # out))"

text \<open>
  \<^verbatim>\<open>main\<close> after the generator and the transform are set up: \<open>argv\<close> is the argument
  vector and \<open>input\<close> the standard input.  The result is the events and the exit status.
\<close>

definition main :: "string list \<Rightarrow> string \<Rightarrow> fault + (event list \<times> int)" where
  "main argv input =
     (if length argv \<le> 1 then
        (case interactive_keys input of Inl e \<Rightarrow> Inl e | Inr out \<Rightarrow> Inr (out, 0))
      else if length argv = 2 then
        (case argument_keys (argv ! 1) of Inl e \<Rightarrow> Inl e | Inr out \<Rightarrow> Inr (out, 0))
      else Inr ([Usage], 1))"

section \<open>Properties\<close>

subsection \<open>The generator\<close>

lemma Random_snd: "snd (Random s) = 1664525 * s + 1013904223"
  by (simp add: Random_def Let_def)

lemma unat_shift8: "unat (drop_bit 8 (w :: 32 word)) = unat w div 2 ^ 8"
  by (simp only: unat_drop_bit_eq) (simp only: drop_bit_eq_div)

lemma Random_fst: "fst (Random s) = real (unat (snd (Random s)) div 2 ^ 8) / 2 ^ 24"
  by (simp only: Random_def Let_def fst_conv snd_conv unat_shift8) simp

lemma Random_unat: "unat (snd (Random s)) = (1664525 * unat s + 1013904223) mod 2 ^ 32"
  by (simp add: Random_snd unat_word_ariths mod_simps)

lemma Random_range: "0 \<le> fst (Random s) \<and> fst (Random s) < 1"
proof -
  have "unat (snd (Random s)) < 2 ^ 32"
    using unsigned_less [of "snd (Random s)"] by simp
  then have "unat (snd (Random s)) div 2 ^ 8 < 2 ^ 24"
    by (simp add: less_mult_imp_div_less)
  then have "real (unat (snd (Random s)) div 2 ^ 8) < 2 ^ 24"
    by (metis of_nat_less_iff of_nat_numeral of_nat_power)
  then show ?thesis
    by (simp add: Random_fst)
qed

lemma seed_funpow_shift:
  "((\<lambda>t. snd (Random t)) ^^ k) (snd (Random s)) = ((\<lambda>t. snd (Random t)) ^^ Suc k) s"
  by (simp only: funpow_Suc_right o_apply)

lemma upt_0_Suc: "[0..<Suc n] = 0 # map Suc [0..<n]"
  by (simp only: map_Suc_upt) (rule upt_conv_Cons, simp)

lemma Random_calls_eq:
  "Random_calls n s =
     (map (\<lambda>k. fst (Random (((\<lambda>t. snd (Random t)) ^^ k) s))) [0..<n],
      ((\<lambda>t. snd (Random t)) ^^ n) s)"
proof (induction n arbitrary: s)
  case 0
  show ?case by simp
next
  case (Suc n)
  show ?case
    by (simp add: Suc upt_0_Suc split_beta Let_def seed_funpow_shift comp_def
        del: upt_Suc funpow.simps)
qed

text \<open>
  Claim C5.  A call of \<^verbatim>\<open>Random\<close> replaces the seed \<open>s\<close> by
  \<open>(1664525 * s + 1013904223) mod 2 ^ 32\<close> and returns the new seed shifted right by
  eight bits and divided by \<open>2 ^ 24\<close>, a value in \<open>[0, 1)\<close>.  The values of \<open>n\<close>
  successive calls are a function of the first seed: call number \<open>k\<close> returns what
  \<^verbatim>\<open>Random\<close> returns on the seed stepped \<open>k\<close> times.
\<close>

theorem Random_recurrence:
  "snd (Random s) = 1664525 * s + 1013904223
   \<and> unat (snd (Random s)) = (1664525 * unat s + 1013904223) mod 2 ^ 32
   \<and> fst (Random s) = real (unat (snd (Random s)) div 2 ^ 8) / 2 ^ 24
   \<and> 0 \<le> fst (Random s) \<and> fst (Random s) < 1
   \<and> Random_calls n s =
       (map (\<lambda>k. fst (Random (((\<lambda>t. snd (Random t)) ^^ k) s))) [0..<n],
        ((\<lambda>t. snd (Random t)) ^^ n) s)"
  using Random_snd [of s] Random_unat [of s] Random_fst [of s] Random_range [of s]
    Random_calls_eq [of n s]
  by (simp only: simp_thms)

subsection \<open>The key table\<close>

lemma strchr_None: "strchr s c = None \<longleftrightarrow> c \<notin> set s \<and> c \<noteq> NUL"
  by (induction s) auto

lemma strchr_nth: "distinct s \<Longrightarrow> i < length s \<Longrightarrow> strchr s (s ! i) = Some i"
proof (induction s arbitrary: i)
  case Nil
  then show ?case by simp
next
  case (Cons x s)
  then show ?case by (cases i) auto
qed

lemma strchr_NUL: "NUL \<notin> set s \<Longrightarrow> strchr s NUL = Some (length s)"
  by (induction s) auto

lemma distinct_Keys: "distinct Keys"
  by (simp add: Keys_def)

lemma length_Keys: "length Keys = 16"
  by (simp add: Keys_def)

lemma array_read_nth: "i < length a \<Longrightarrow> array_read a (int i) = Inr (a ! i)"
  by (simp add: array_read_def)

lemma Convert_nth:
  assumes "i < 16"
  shows "ConvertKeyToFrequencies (Keys ! i) =
           Inr \<lparr>Frequency = (DTMF0 ! (i mod 4), DTMF1 ! (i div 4))\<rparr>"
proof -
  have s: "strchr Keys (Keys ! i) = Some i"
    using assms by (simp add: strchr_nth distinct_Keys length_Keys)
  have m: "int i mod 4 = int (i mod 4)" and d: "int i div 4 = int (i div 4)"
    by (simp_all add: zmod_int zdiv_int)
  have "i mod 4 < length DTMF0" "i div 4 < length DTMF1"
    using assms by (simp_all add: DTMF0_def DTMF1_def)
  then show ?thesis
    by (simp only: ConvertKeyToFrequencies_def s m d array_read_nth option.case sum.case)
qed

lemma Convert_unknown:
  "Key \<notin> set Keys \<Longrightarrow> Key \<noteq> NUL \<Longrightarrow>
     ConvertKeyToFrequencies Key = Inr \<lparr>Frequency = (0, 0)\<rparr>"
  using strchr_None [of Keys Key] by (simp add: ConvertKeyToFrequencies_def)

lemma DTMF0_nonzero: "i < 4 \<Longrightarrow> DTMF0 ! i \<noteq> 0"
  by (auto simp: DTMF0_def less_Suc_eq numeral_eq_Suc nth_Cons')

lemma DTMF1_nonzero: "i < 4 \<Longrightarrow> DTMF1 ! i \<noteq> 0"
  by (auto simp: DTMF1_def less_Suc_eq numeral_eq_Suc nth_Cons')

lemma Convert_valid:
  assumes "K \<in> set Keys"
  shows "\<exists>F. ConvertKeyToFrequencies K = Inr F \<and> fst (Frequency F) \<noteq> 0 \<and> snd (Frequency F) \<noteq> 0"
proof -
  obtain i where i: "i < 16" "Keys ! i = K"
    using assms by (metis in_set_conv_nth length_Keys)
  have "i mod 4 < 4" "i div 4 < 4"
    using i(1) by simp_all
  then show ?thesis
    using Convert_nth [OF i(1)] i(2) by (simp add: DTMF0_nonzero DTMF1_nonzero)
qed

text \<open>
  A null character as the key is found by \<^verbatim>\<open>strchr\<close> at the terminator of
  \<^verbatim>\<open>Keys\<close>, offset 16, and \<^verbatim>\<open>DTMF1[16/4]\<close> is outside the table.  The interactive
  mode passes on a null character read from the standard input.
\<close>

lemma Convert_NUL: "ConvertKeyToFrequencies NUL = Inl OutOfBounds"
proof -
  have "strchr Keys NUL = Some 16"
    using strchr_NUL [of Keys] by (simp add: Keys_def NUL_def)
  then show ?thesis
    by (simp add: ConvertKeyToFrequencies_def array_read_def DTMF0_def DTMF1_def)
qed

text \<open>
  Claim C2.  The key at position \<open>i\<close> of the sixteen keys has the frequencies
  \<open>DTMF0[i mod 4]\<close> and \<open>DTMF1[i / 4]\<close>, with \<open>DTMF0 = {1209, 1336, 1477, 1633}\<close> and
  \<open>DTMF1 = {697, 770, 852, 941}\<close>.
\<close>

theorem ConvertKeyToFrequencies_position:
  "i < 16 \<Longrightarrow>
     ConvertKeyToFrequencies (Keys ! i) =
       Inr \<lparr>Frequency = (DTMF0 ! (i mod 4), DTMF1 ! (i div 4))\<rparr>
     \<and> length Keys = 16
     \<and> DTMF0 = [1209, 1336, 1477, 1633] \<and> DTMF1 = [697, 770, 852, 941]"
  by (simp add: Convert_nth length_Keys) (simp add: DTMF0_def DTMF1_def)

theorem ConvertKeyToFrequencies_position_witness:
  "(7 :: nat) < 16 \<and> ConvertKeyToFrequencies (CHR ''B'') = Inr \<lparr>Frequency = (1633, 770)\<rparr>"
  using ConvertKeyToFrequencies_position [of 7]
  by (simp add: Keys_def DTMF0_def DTMF1_def)

text \<open>
  Claim C3, as amended.  For a key that is not one of the sixteen and is not the null
  character, the result is the pair of zeroes: the zero pair is the sign of a key that is
  not in the table.  It differs from the pair of every key of the table, whose two
  frequencies are not zero (\<^verbatim>\<open>main\<close> tests \<^verbatim>\<open>F.Frequency[0] != 0\<close>).
\<close>

theorem ConvertKeyToFrequencies_not_found:
  "Key \<notin> set Keys \<Longrightarrow> Key \<noteq> NUL \<Longrightarrow>
     ConvertKeyToFrequencies Key = Inr \<lparr>Frequency = (0, 0)\<rparr>
     \<and> (\<forall>K \<in> set Keys. \<exists>F. ConvertKeyToFrequencies K = Inr F
            \<and> fst (Frequency F) \<noteq> 0 \<and> snd (Frequency F) \<noteq> 0)"
  by (simp add: Convert_unknown Convert_valid)

theorem ConvertKeyToFrequencies_not_found_witness:
  "CHR ''x'' \<notin> set Keys \<and> CHR ''x'' \<noteq> NUL
   \<and> ConvertKeyToFrequencies (CHR ''x'') = Inr \<lparr>Frequency = (0, 0)\<rparr>
   \<and> ConvertKeyToFrequencies (CHR ''5'') = Inr \<lparr>Frequency = (1336, 770)\<rparr>"
proof -
  have a: "CHR ''x'' \<notin> set Keys" and b: "CHR ''x'' \<noteq> NUL"
    by (simp_all add: Keys_def NUL_def)
  have "ConvertKeyToFrequencies (CHR ''5'') = Inr \<lparr>Frequency = (1336, 770)\<rparr>"
    by (simp add: ConvertKeyToFrequencies_def Keys_def DTMF0_def DTMF1_def array_read_def)
  then show ?thesis
    using a b ConvertKeyToFrequencies_not_found [OF a b] by simp
qed

text \<open>
  The claim as it was stated fails: the result for the key \<open>x\<close>, which is not in the
  table, is the zero-frequency pair.
\<close>

theorem ConvertKeyToFrequencies_zero_pair:
  "CHR ''x'' \<notin> set Keys
   \<and> ConvertKeyToFrequencies (CHR ''x'') = Inr \<lparr>Frequency = (0, 0)\<rparr>"
  by (simp add: ConvertKeyToFrequencies_def Keys_def NUL_def)

lemma distinct_DTMF: "distinct DTMF0" "distinct DTMF1" "length DTMF0 = 4" "length DTMF1 = 4"
  by (simp_all add: DTMF0_def DTMF1_def)

lemma found_key_nth:
  assumes "a < 4" "b < 4"
  shows "found_key (int a) (int b) = Inr (Keys ! (4 * b + a))"
proof -
  have "int b * 4 + int a = int (4 * b + a)" by simp
  moreover have "4 * b + a < length (Keys @ [NUL])"
    using assms by (simp add: length_Keys)
  moreover have "(Keys @ [NUL]) ! (4 * b + a) = Keys ! (4 * b + a)"
    using assms by (simp add: nth_append length_Keys)
  ultimately show ?thesis
    by (simp only: found_key_def array_read_nth)
qed

lemma Convert_found_key:
  assumes "a < 4" "b < 4"
  shows "ConvertKeyToFrequencies (Keys ! (4 * b + a)) =
           Inr \<lparr>Frequency = (DTMF0 ! a, DTMF1 ! b)\<rparr>"
proof -
  have "4 * b + a < 16" using assms by simp
  moreover have "(4 * b + a) mod 4 = a" "(4 * b + a) div 4 = b"
    using assms by simp_all
  ultimately show ?thesis
    using Convert_nth [of "4 * b + a"] by simp
qed

lemma Convert_inj: "inj_on ConvertKeyToFrequencies (set Keys)"
proof (rule inj_onI)
  fix K K' assume K: "K \<in> set Keys" and K': "K' \<in> set Keys"
    and eq: "ConvertKeyToFrequencies K = ConvertKeyToFrequencies K'"
  obtain i where i: "i < 16" "Keys ! i = K"
    using K by (metis in_set_conv_nth length_Keys)
  obtain j where j: "j < 16" "Keys ! j = K'"
    using K' by (metis in_set_conv_nth length_Keys)
  have "DTMF0 ! (i mod 4) = DTMF0 ! (j mod 4)" "DTMF1 ! (i div 4) = DTMF1 ! (j div 4)"
    using eq Convert_nth [OF i(1)] Convert_nth [OF j(1)] i(2) j(2) by simp_all
  moreover have "i mod 4 < 4" "j mod 4 < 4" "i div 4 < 4" "j div 4 < 4"
    using i(1) j(1) by simp_all
  ultimately have "i mod 4 = j mod 4" "i div 4 = j div 4"
    using distinct_DTMF by (simp_all add: nth_eq_iff_index_eq)
  then have "i = j"
    by (metis div_mult_mod_eq)
  then show "K = K'" using i(2) j(2) by simp
qed

lemma Convert_image:
  "ConvertKeyToFrequencies ` set Keys =
     {(Inr \<lparr>Frequency = (f0, f1)\<rparr> :: fault + FrequencyPair) | f0 f1.
        f0 \<in> set DTMF0 \<and> f1 \<in> set DTMF1}"
proof (intro set_eqI iffI)
  fix P assume "P \<in> ConvertKeyToFrequencies ` set Keys"
  then obtain K where K: "K \<in> set Keys" "P = ConvertKeyToFrequencies K" by auto
  obtain i where i: "i < 16" "Keys ! i = K"
    using K(1) by (metis in_set_conv_nth length_Keys)
  have "i mod 4 < length DTMF0" "i div 4 < length DTMF1"
    using i(1) by (simp_all add: distinct_DTMF)
  then have "DTMF0 ! (i mod 4) \<in> set DTMF0" "DTMF1 ! (i div 4) \<in> set DTMF1"
    by (simp_all only: nth_mem)
  then show "P \<in> {(Inr \<lparr>Frequency = (f0, f1)\<rparr> :: fault + FrequencyPair) | f0 f1.
        f0 \<in> set DTMF0 \<and> f1 \<in> set DTMF1}"
    using K(2) Convert_nth [OF i(1)] i(2) by blast
next
  fix P assume "P \<in> {(Inr \<lparr>Frequency = (f0, f1)\<rparr> :: fault + FrequencyPair) | f0 f1.
        f0 \<in> set DTMF0 \<and> f1 \<in> set DTMF1}"
  then obtain f0 f1 where P: "P = Inr \<lparr>Frequency = (f0, f1)\<rparr>"
    "f0 \<in> set DTMF0" "f1 \<in> set DTMF1"
    by blast
  obtain a where a: "a < 4" "DTMF0 ! a = f0"
    using P(2) by (metis in_set_conv_nth distinct_DTMF(3))
  obtain b where b: "b < 4" "DTMF1 ! b = f1"
    using P(3) by (metis in_set_conv_nth distinct_DTMF(4))
  have "4 * b + a < length Keys" using a(1) b(1) by (simp add: length_Keys)
  then have "Keys ! (4 * b + a) \<in> set Keys" by (rule nth_mem)
  then show "P \<in> ConvertKeyToFrequencies ` set Keys"
    using Convert_found_key [OF a(1) b(1)] P(1) a(2) b(2) by (metis image_eqI)
qed

text \<open>
  Claim C4.  For tone indices \<open>a\<close> and \<open>b\<close> below 4, the key that
  \<^verbatim>\<open>Demonstrate\<close> prints, \<^verbatim>\<open>Keys[b*4 + a]\<close>, is a key of the table whose frequencies are
  \<open>DTMF0[a]\<close> and \<open>DTMF1[b]\<close>; the key at position \<open>i\<close> is printed for the indices
  \<open>i mod 4\<close> and \<open>i / 4\<close> of its own frequencies; and the lookup is a bijection
  between the sixteen keys and the sixteen pairs of a \<open>DTMF0\<close> and a \<open>DTMF1\<close>
  frequency.
\<close>

theorem found_key_inverts_lookup:
  "(\<forall>a b. a < 4 \<and> b < 4 \<longrightarrow>
      (\<exists>K. found_key (int a) (int b) = Inr K \<and> K \<in> set Keys
         \<and> ConvertKeyToFrequencies K = Inr \<lparr>Frequency = (DTMF0 ! a, DTMF1 ! b)\<rparr>))
   \<and> (\<forall>i < 16. found_key (int (i mod 4)) (int (i div 4)) = Inr (Keys ! i))
   \<and> bij_betw ConvertKeyToFrequencies (set Keys)
        {(Inr \<lparr>Frequency = (f0, f1)\<rparr> :: fault + FrequencyPair) | f0 f1.
           f0 \<in> set DTMF0 \<and> f1 \<in> set DTMF1}
   \<and> card (set Keys) = 16 \<and> length DTMF0 = 4 \<and> length DTMF1 = 4"
proof (intro conjI allI impI)
  fix a b :: nat assume ab: "a < 4 \<and> b < 4"
  then have "4 * b + a < length Keys" by (simp add: length_Keys)
  then have "Keys ! (4 * b + a) \<in> set Keys" by (rule nth_mem)
  then show "\<exists>K. found_key (int a) (int b) = Inr K \<and> K \<in> set Keys
         \<and> ConvertKeyToFrequencies K = Inr \<lparr>Frequency = (DTMF0 ! a, DTMF1 ! b)\<rparr>"
    using ab found_key_nth [of a b] Convert_found_key [of a b] by simp
next
  fix i :: nat assume "i < 16"
  then have "i mod 4 < 4" "i div 4 < 4" by simp_all
  then show "found_key (int (i mod 4)) (int (i div 4)) = Inr (Keys ! i)"
    using found_key_nth [of "i mod 4" "i div 4"] by simp
next
  show "bij_betw ConvertKeyToFrequencies (set Keys)
        {(Inr \<lparr>Frequency = (f0, f1)\<rparr> :: fault + FrequencyPair) | f0 f1.
           f0 \<in> set DTMF0 \<and> f1 \<in> set DTMF1}"
    unfolding bij_betw_def using Convert_inj Convert_image by simp
next
  show "card (set Keys) = 16"
    using distinct_card [OF distinct_Keys] by (simp add: length_Keys)
qed (simp_all add: distinct_DTMF)

theorem found_key_inverts_lookup_witness:
  "found_key 2 1 = Inr (CHR ''6'')
   \<and> ConvertKeyToFrequencies (CHR ''6'') = Inr \<lparr>Frequency = (1477, 770)\<rparr>"
proof -
  obtain K where "found_key (int 2) (int 1) = Inr K"
    "ConvertKeyToFrequencies K = Inr \<lparr>Frequency = (DTMF0 ! 2, DTMF1 ! 1)\<rparr>"
    using found_key_inverts_lookup [THEN conjunct1, rule_format, of 2 1] by auto
  moreover have "found_key 2 1 = Inr (CHR ''6'')"
    by (simp add: found_key_def array_read_def Keys_def)
  ultimately show ?thesis
    by (simp add: DTMF0_def DTMF1_def)
qed

subsection \<open>The index of a frequency in the transform's output\<close>

lemma bin_1209: "bin_index 1209 = Inr 95"
  by (simp add: bin_index_def double_to_int_def SamplingFrequency_def SampleLength_def
      Log2SampleLength_def Let_def)

lemma bin_half:
  assumes "f / real_of_int SamplingFrequency * real SampleLength = of_int x + 1 / 2"
    and "- (2 ^ 31) \<le> x + 1" and "x + 1 < 2 ^ 31"
  shows "bin_index f = Inr (x + 1)"
proof -
  have "f / real_of_int SamplingFrequency * real SampleLength + 0.5 = of_int (x + 1)"
    using assms(1) by simp
  then show ?thesis
    using assms(2,3) by (simp add: bin_index_def double_to_int_def Let_def del: of_int_add)
qed

text \<open>
  Claim C7.  With the sampling frequency 3266 and 256 samples, the frequency 1209 has the
  index 95; and a frequency whose scaled value \<open>f / 3266 * 256\<close> is an integer \<open>x\<close> and
  a half has the index \<open>x + 1\<close> (when that is an \<^verbatim>\<open>int\<close>).
\<close>

theorem bin_index_rounds_half_up:
  "SamplingFrequency = 3266 \<and> SampleLength = 256 \<and> bin_index 1209 = Inr 95
   \<and> (\<forall>f x. f / real_of_int SamplingFrequency * real SampleLength = of_int x + 1 / 2
         \<and> - (2 ^ 31) \<le> x + 1 \<and> x + 1 < 2 ^ 31 \<longrightarrow> bin_index f = Inr (x + 1))"
  using bin_1209 bin_half
  by (simp add: SamplingFrequency_def SampleLength_def Log2SampleLength_def)

theorem bin_index_rounds_half_up_witness:
  "(308637 / 256 :: real) / 3266 * 256 = 94 + 1 / 2 \<and> bin_index (308637 / 256) = Inr 95"
proof -
  have "bin_index (308637 / 256) = Inr (94 + 1)"
    by (rule bin_index_rounds_half_up
          [THEN conjunct2, THEN conjunct2, THEN conjunct2, rule_format])
       (simp add: SamplingFrequency_def SampleLength_def Log2SampleLength_def)
  then show ?thesis by simp
qed

subsection \<open>The search for the strongest candidate\<close>

lemma FindTone_loop_unfold:
  "FindTone_loop B F N i mv mi =
     (if i < N then
        (case candidate_Value B F i of
           Inl e \<Rightarrow> Inl e
         | Inr Value \<Rightarrow>
             (if mv < Value
              then FindTone_loop B F N (i + 1) Value i
              else FindTone_loop B F N (i + 1) mv mi))
      else Inr mi)"
  by (rule FindTone_loop.simps)

lemma FindTone_loop_result:
  assumes "\<forall>j. i \<le> j \<and> j < N \<longrightarrow> candidate_Value B F j = Inr (v j)"
  shows "\<exists>r. FindTone_loop B F N i mv mi = Inr r \<and>
           ((r = mi \<and> (\<forall>j. i \<le> j \<and> j < N \<longrightarrow> v j \<le> mv)) \<or>
            (i \<le> r \<and> r < N \<and> mv < v r \<and> (\<forall>j. i \<le> j \<and> j < N \<longrightarrow> v j \<le> v r)
               \<and> (\<forall>j. i \<le> j \<and> j < r \<longrightarrow> v j < v r)))"
  using assms
proof (induction B F N i mv mi rule: FindTone_loop.induct)
  case (1 B F N i mv mi)
  show ?case
  proof (cases "i < N")
    case False
    then show ?thesis
      by (subst FindTone_loop_unfold) auto
  next
    case True
    then have cv: "candidate_Value B F i = Inr (v i)"
      using "1.prems" by simp
    have rest: "\<forall>j. i + 1 \<le> j \<and> j < N \<longrightarrow> candidate_Value B F j = Inr (v j)"
      using "1.prems" by simp
    show ?thesis
    proof (cases "mv < v i")
      case gt: True
      have step: "FindTone_loop B F N i mv mi = FindTone_loop B F N (i + 1) (v i) i"
        by (subst FindTone_loop_unfold) (simp add: True cv gt)
      obtain r where r: "FindTone_loop B F N (i + 1) (v i) i = Inr r"
        and d: "(r = i \<and> (\<forall>j. i + 1 \<le> j \<and> j < N \<longrightarrow> v j \<le> v i)) \<or>
            (i + 1 \<le> r \<and> r < N \<and> v i < v r \<and> (\<forall>j. i + 1 \<le> j \<and> j < N \<longrightarrow> v j \<le> v r)
               \<and> (\<forall>j. i + 1 \<le> j \<and> j < r \<longrightarrow> v j < v r))"
        using "1.IH"(1) [OF True cv gt rest] by blast
      have all: "\<forall>j. i \<le> j \<and> j < N \<longrightarrow> v j \<le> v r"
      proof (intro allI impI)
        fix j assume j: "i \<le> j \<and> j < N"
        show "v j \<le> v r"
        proof (cases "j = i")
          case True
          then show ?thesis using d by auto
        next
          case False
          then have "i + 1 \<le> j \<and> j < N" using j by simp
          then show ?thesis using d by auto
        qed
      qed
      have before: "\<forall>j. i \<le> j \<and> j < r \<longrightarrow> v j < v r"
      proof (intro allI impI)
        fix j assume j: "i \<le> j \<and> j < r"
        show "v j < v r"
        proof (cases "j = i")
          case True
          then show ?thesis using d j by auto
        next
          case False
          then have "i + 1 \<le> j \<and> j < r" using j by simp
          then show ?thesis using d by auto
        qed
      qed
      have "i \<le> r \<and> r < N \<and> mv < v r"
        using d True gt by auto
      then show ?thesis
        using step r all before by simp
    next
      case le: False
      have step: "FindTone_loop B F N i mv mi = FindTone_loop B F N (i + 1) mv mi"
        by (subst FindTone_loop_unfold) (simp add: True cv le)
      obtain r where r: "FindTone_loop B F N (i + 1) mv mi = Inr r"
        and d: "(r = mi \<and> (\<forall>j. i + 1 \<le> j \<and> j < N \<longrightarrow> v j \<le> mv)) \<or>
            (i + 1 \<le> r \<and> r < N \<and> mv < v r \<and> (\<forall>j. i + 1 \<le> j \<and> j < N \<longrightarrow> v j \<le> v r)
               \<and> (\<forall>j. i + 1 \<le> j \<and> j < r \<longrightarrow> v j < v r))"
        using "1.IH"(2) [OF True cv le rest] by blast
      have split: "i + 1 \<le> j \<or> j = i" if "i \<le> j" for j
        using that by auto
      from d show ?thesis
      proof
        assume a: "r = mi \<and> (\<forall>j. i + 1 \<le> j \<and> j < N \<longrightarrow> v j \<le> mv)"
        have "\<forall>j. i \<le> j \<and> j < N \<longrightarrow> v j \<le> mv"
          using a le split by (metis not_less)
        then show ?thesis using step r a by simp
      next
        assume a: "i + 1 \<le> r \<and> r < N \<and> mv < v r \<and> (\<forall>j. i + 1 \<le> j \<and> j < N \<longrightarrow> v j \<le> v r)
               \<and> (\<forall>j. i + 1 \<le> j \<and> j < r \<longrightarrow> v j < v r)"
        have vi: "v i < v r" using a le by simp
        have "\<forall>j. i \<le> j \<and> j < N \<longrightarrow> v j \<le> v r"
          using a vi split by (metis less_imp_le)
        moreover have "\<forall>j. i \<le> j \<and> j < r \<longrightarrow> v j < v r"
          using a vi split by metis
        moreover have "i \<le> r" using a by simp
        ultimately show ?thesis using step r a by simp
      qed
    qed
  qed
qed

lemma FindTone_loop_cong:
  assumes "\<forall>j. i \<le> j \<and> j < N \<longrightarrow> candidate_Value B F j = candidate_Value B' F' j"
  shows "FindTone_loop B F N i mv mi = FindTone_loop B' F' N i mv mi"
  using assms
proof (induction B F N i mv mi rule: FindTone_loop.induct)
  case (1 B F N i mv mi)
  show ?case
  proof (cases "i < N")
    case False
    then show ?thesis
      by (simp add: FindTone_loop_unfold [of _ _ N i])
  next
    case True
    then have cv: "candidate_Value B F i = candidate_Value B' F' i"
      using "1.prems" by simp
    have rest: "\<forall>j. i + 1 \<le> j \<and> j < N \<longrightarrow> candidate_Value B F j = candidate_Value B' F' j"
      using "1.prems" by simp
    show ?thesis
    proof (cases "candidate_Value B F i")
      case (Inl e)
      then show ?thesis
        using cv True by (simp add: FindTone_loop_unfold [of _ _ N i])
    next
      case (Inr x)
      show ?thesis
      proof (cases "mv < x")
        case gt: True
        show ?thesis
          using "1.IH"(1) [OF True Inr gt rest] Inr cv True gt
          by (simp add: FindTone_loop_unfold [of _ _ N i mv mi])
      next
        case le: False
        show ?thesis
          using "1.IH"(2) [OF True Inr le rest] Inr cv True le
          by (simp add: FindTone_loop_unfold [of _ _ N i mv mi])
      qed
    qed
  qed
qed

lemma FindTone_loop_fault:
  "FindTone_loop B F N i mv mi = Inl e \<Longrightarrow>
     \<exists>j. i \<le> j \<and> j < N \<and> candidate_Value B F j = Inl e"
proof (induction B F N i mv mi rule: FindTone_loop.induct)
  case (1 B F N i mv mi)
  show ?case
  proof (cases "i < N")
    case False
    then show ?thesis
      using "1.prems" by (simp add: FindTone_loop_unfold [of _ _ N i])
  next
    case True
    show ?thesis
    proof (cases "candidate_Value B F i")
      case (Inl e')
      then have "e' = e"
        using "1.prems" True by (simp add: FindTone_loop_unfold [of _ _ N i])
      then show ?thesis using Inl True by auto
    next
      case (Inr x)
      show ?thesis
      proof (cases "mv < x")
        case gt: True
        have "FindTone_loop B F N (i + 1) x i = Inl e"
          using "1.prems" True Inr gt by (simp add: FindTone_loop_unfold [of _ _ N i mv mi])
        then obtain j where "i + 1 \<le> j \<and> j < N \<and> candidate_Value B F j = Inl e"
          using "1.IH"(1) [OF True Inr gt] by blast
        then have "i \<le> j \<and> j < N \<and> candidate_Value B F j = Inl e" by simp
        then show ?thesis ..
      next
        case le: False
        have "FindTone_loop B F N (i + 1) mv mi = Inl e"
          using "1.prems" True Inr le by (simp add: FindTone_loop_unfold [of _ _ N i mv mi])
        then obtain j where "i + 1 \<le> j \<and> j < N \<and> candidate_Value B F j = Inl e"
          using "1.IH"(2) [OF True Inr le] by blast
        then have "i \<le> j \<and> j < N \<and> candidate_Value B F j = Inl e" by simp
        then show ?thesis ..
      qed
    qed
  qed
qed

text \<open>
  Claim C10.  Without a candidate (\<open>N \<le> 0\<close>) the result is 0, whatever the buffer and
  the array are.  With \<open>N \<ge> 1\<close> candidates whose reads are all within the arrays, the
  result is an index from 0 to \<open>N - 1\<close>.  A fault of \<^verbatim>\<open>FindTone\<close> is the fault of one of
  the \<open>N\<close> candidates, and the result is the same for two buffers that agree at the
  bins of the \<open>N\<close> candidates: nothing else of the buffer is read.
\<close>

theorem FindTone_index_in_range:
  "(N \<le> 0 \<longrightarrow> FindTone B F N = Inr 0)
   \<and> (0 < N \<and> (\<forall>j. 0 \<le> j \<and> j < N \<longrightarrow> (\<exists>x. candidate_Value B F j = Inr x))
        \<longrightarrow> (\<exists>r. FindTone B F N = Inr r \<and> 0 \<le> r \<and> r < N))
   \<and> (FindTone B F N = Inl e \<longrightarrow> (\<exists>j. 0 \<le> j \<and> j < N \<and> candidate_Value B F j = Inl e))
   \<and> ((\<forall>j f k. 0 \<le> j \<and> j < N \<and> array_read F j = Inr f \<and> bin_index f = Inr k \<longrightarrow>
           ptr_read (realp B) k = ptr_read (realp B') k
           \<and> ptr_read (imagp B) k = ptr_read (imagp B') k)
        \<longrightarrow> FindTone B F N = FindTone B' F N)"
proof (intro conjI impI)
  assume "N \<le> 0"
  then show "FindTone B F N = Inr 0"
    by (simp add: FindTone_def FindTone_loop_unfold [of _ _ N 0])
next
  assume a: "0 < N \<and> (\<forall>j. 0 \<le> j \<and> j < N \<longrightarrow> (\<exists>x. candidate_Value B F j = Inr x))"
  define v where "v = (\<lambda>j. projr (candidate_Value B F j))"
  have cv: "\<forall>j. 0 \<le> j \<and> j < N \<longrightarrow> candidate_Value B F j = Inr (v j)"
    using a by (auto simp: v_def)
  obtain r where r: "FindTone_loop B F N 0 (- 1) 0 = Inr r"
    and d: "(r = 0 \<and> (\<forall>j. 0 \<le> j \<and> j < N \<longrightarrow> v j \<le> - 1)) \<or>
        (0 \<le> r \<and> r < N \<and> - 1 < v r
           \<and> (\<forall>j. 0 \<le> j \<and> j < N \<longrightarrow> v j \<le> v r)
           \<and> (\<forall>j. 0 \<le> j \<and> j < r \<longrightarrow> v j < v r))"
    using FindTone_loop_result [OF cv, of "- 1" 0] by blast
  have "0 \<le> r \<and> r < N"
    using d a by auto
  then show "\<exists>r. FindTone B F N = Inr r \<and> 0 \<le> r \<and> r < N"
    using r by (simp add: FindTone_def)
next
  assume "FindTone B F N = Inl e"
  then show "\<exists>j. 0 \<le> j \<and> j < N \<and> candidate_Value B F j = Inl e"
    unfolding FindTone_def by (rule FindTone_loop_fault)
next
  assume a: "\<forall>j f k. 0 \<le> j \<and> j < N \<and> array_read F j = Inr f \<and> bin_index f = Inr k \<longrightarrow>
           ptr_read (realp B) k = ptr_read (realp B') k
           \<and> ptr_read (imagp B) k = ptr_read (imagp B') k"
  have "\<forall>j. 0 \<le> j \<and> j < N \<longrightarrow> candidate_Value B F j = candidate_Value B' F j"
    using a by (auto simp: candidate_Value_def split: sum.splits)
  then show "FindTone B F N = FindTone B' F N"
    unfolding FindTone_def by (rule FindTone_loop_cong)
qed

theorem FindTone_index_in_range_witness:
  "FindTone \<lparr>realp = ([], 0), imagp = ([], 0)\<rparr> [] 0 = Inr 0
   \<and> (\<exists>r. FindTone \<lparr>realp = ([1, 3], 0), imagp = ([2, 0], 0)\<rparr> [0, 1633 / 128] 2 = Inr r
          \<and> 0 \<le> r \<and> r < 2)"
proof -
  define B where "B = \<lparr>realp = ([1, 3 :: real], 0 :: int), imagp = ([2, 0 :: real], 0 :: int)\<rparr>"
  define F where "F = [0, 1633 / 128 :: real]"
  have c0: "candidate_Value B F 0 = Inr 5" and c1: "candidate_Value B F 1 = Inr 9"
    by (simp_all add: candidate_Value_def B_def F_def array_read_def ptr_read_def bin_index_def
        double_to_int_def SamplingFrequency_def SampleLength_def Log2SampleLength_def Let_def)
  have "\<exists>x. candidate_Value B F j = Inr x" if "0 \<le> j \<and> j < 2" for j :: int
  proof -
    have "j = 0 \<or> j = 1" using that by auto
    then show ?thesis using c0 c1 by auto
  qed
  then have h: "(0 :: int) < 2 \<and> (\<forall>j. 0 \<le> j \<and> j < 2 \<longrightarrow> (\<exists>x. candidate_Value B F j = Inr x))"
    by simp
  note t = FindTone_index_in_range [of 2 B F, THEN conjunct2, THEN conjunct1, rule_format, OF h]
  note z = FindTone_index_in_range
    [of 0 "\<lparr>realp = ([], 0), imagp = ([], 0)\<rparr>" "[]", THEN conjunct1, rule_format]
  have "FindTone \<lparr>realp = ([], 0), imagp = ([], 0)\<rparr> [] 0 = Inr 0"
    by (rule z) simp
  then show ?thesis
    using t unfolding B_def F_def by (intro conjI)
qed

subsection \<open>Rounding\<close>

lemma round_even_of_int: "round_even (of_int m) = m"
  by (simp add: round_even_def)

lemma round_even_nonneg: "0 \<le> x \<Longrightarrow> 0 \<le> round_even x"
  by (auto simp: round_even_def Let_def)

lemma floor_log2_eq:
  assumes "2 powi k \<le> x" "x < 2 powi (k + 1)"
  shows "\<lfloor>log 2 x\<rfloor> = k"
proof -
  have "0 < (2 :: real) powi k" by simp
  then have pos: "0 < x"
    using assms(1) by linarith
  have "(2 :: real) powr real_of_int k = 2 powi k" "(2 :: real) powr (real_of_int k + 1) = 2 powi (k + 1)"
    using powr_real_of_int' [of "2 :: real" k] powr_real_of_int' [of "2 :: real" "k + 1"] by simp_all
  then show ?thesis
    using assms pos by (simp add: floor_log_eq_powr_iff)
qed

lemma powi_double: "(2 :: real) powi (k + 1) = 2 * 2 powi k"
  by (simp add: power_int_add)

lemma exponent_up_unfold: "exponent_up x = (if x < 2 then 0 else exponent_up (x / 2) + 1)"
  by (rule exponent_up.simps)

lemma exponent_down_unfold:
  "exponent_down x = (if 1 \<le> x \<or> x \<le> 0 then 0 else exponent_down (2 * x) - 1)"
  by (rule exponent_down.simps)

lemma exponent_up_bounds:
  "1 \<le> x \<Longrightarrow> 2 powi (exponent_up x) \<le> x \<and> x < 2 powi (exponent_up x + 1)"
proof (induction x rule: exponent_up.induct)
  case (1 x)
  show ?case
  proof (cases "x < 2")
    case True
    then have "exponent_up x = 0" by (subst exponent_up_unfold) simp
    then show ?thesis using True "1.prems" by simp
  next
    case False
    define h where "h = exponent_up (x / 2)"
    have "1 \<le> x / 2" using False by simp
    then have ih: "2 powi h \<le> x / 2 \<and> x / 2 < 2 powi (h + 1)"
      unfolding h_def using False by (intro "1.IH") simp_all
    have e: "exponent_up x = h + 1"
      using False by (subst exponent_up_unfold) (simp add: h_def)
    have "2 powi (h + 1) \<le> x"
      using ih powi_double [of h] by linarith
    moreover have "x < 2 powi (h + 1 + 1)"
      using ih powi_double [of "h + 1"] by linarith
    ultimately show ?thesis
      by (simp only: e)
  qed
qed

lemma exponent_down_bounds:
  "0 < x \<Longrightarrow> x < 2 \<Longrightarrow> 2 powi (exponent_down x) \<le> x \<and> x < 2 powi (exponent_down x + 1)"
proof (induction x rule: exponent_down.induct)
  case (1 x)
  show ?case
  proof (cases "1 \<le> x")
    case True
    then have "exponent_down x = 0" by (subst exponent_down_unfold) simp
    then show ?thesis using True "1.prems" by simp
  next
    case False
    define d where "d = exponent_down (2 * x)"
    have "0 < 2 * x" "2 * x < 2"
      using "1.prems" False by simp_all
    then have ih: "2 powi d \<le> 2 * x \<and> 2 * x < 2 powi (d + 1)"
      unfolding d_def using False "1.prems" by (intro "1.IH") simp_all
    have e: "exponent_down x = d - 1"
      using False "1.prems" by (subst exponent_down_unfold) (simp add: d_def)
    have p: "(2 :: real) powi d = 2 * 2 powi (d - 1)"
      using powi_double [of "d - 1"] by simp
    have "2 powi (d - 1) \<le> x"
      using ih p by linarith
    moreover have "x < 2 powi (d - 1 + 1)"
      using ih powi_double [of d] by simp
    ultimately show ?thesis
      by (simp only: e)
  qed
qed

lemma exponent_of_bounds:
  assumes "0 < x"
  shows "2 powi (exponent_of x) \<le> x \<and> x < 2 powi (exponent_of x + 1)"
proof (cases "1 \<le> x")
  case True
  then show ?thesis
    using exponent_up_bounds [of x] by (simp add: exponent_of_def)
next
  case False
  then show ?thesis
    using assms exponent_down_bounds [of x] by (simp add: exponent_of_def)
qed

lemma exponent_of_eq:
  assumes "2 powi k \<le> x" "x < 2 powi (k + 1)"
  shows "exponent_of x = k"
proof -
  have "0 < (2 :: real) powi k" by simp
  then have "0 < x" using assms(1) by linarith
  then have b: "2 powi (exponent_of x) \<le> x \<and> x < 2 powi (exponent_of x + 1)"
    by (rule exponent_of_bounds)
  then have "\<lfloor>log 2 x\<rfloor> = exponent_of x"
    by (intro floor_log2_eq) simp_all
  moreover have "\<lfloor>log 2 x\<rfloor> = k"
    using assms by (rule floor_log2_eq)
  ultimately show ?thesis by simp
qed

text \<open>The exponent is \<open>\<lfloor>log\<^sub>2 x\<rfloor>\<close>.\<close>

lemma exponent_of_floor_log: "0 < x \<Longrightarrow> exponent_of x = \<lfloor>log 2 x\<rfloor>"
  using exponent_of_bounds [of x] floor_log2_eq [of "exponent_of x" x] by simp

lemma round_binary_eval:
  assumes "2 powi k \<le> \<bar>x\<bar>" "\<bar>x\<bar> < 2 powi (k + 1)" "emin \<le> k"
  shows "round_binary p emin x =
           of_int (round_even (x / 2 powi (k - (int p - 1)))) * 2 powi (k - (int p - 1))"
proof -
  have "0 < \<bar>x\<bar>"
    by (rule less_le_trans [OF _ assms(1)]) simp
  then have "x \<noteq> 0" by simp
  moreover have "exponent_of \<bar>x\<bar> = k"
    using assms(1,2) by (rule exponent_of_eq)
  ultimately show ?thesis
    using assms(3) by (simp add: round_binary_def Let_def max_def)
qed

lemma round_binary_exact:
  assumes "\<bar>m\<bar> < 2 ^ p" "emin - (int p - 1) \<le> k"
  shows "round_binary p emin (of_int m * 2 powi k) = of_int m * 2 powi k"
proof (cases "m = 0")
  case True
  then show ?thesis by (simp add: round_binary_def)
next
  case False
  define x :: real where "x = of_int m * 2 powi k"
  define e where "e = max (exponent_of \<bar>x\<bar>) emin - (int p - 1)"
  have x0: "x \<noteq> 0" using False by (simp add: x_def)
  have "\<bar>x\<bar> = of_int \<bar>m\<bar> * 2 powi k"
    by (simp add: x_def abs_mult)
  also have "\<dots> < 2 ^ p * 2 powi k"
  proof -
    have "real_of_int \<bar>m\<bar> < 2 ^ p"
      using assms(1) by (metis of_int_less_iff of_int_numeral of_int_power)
    then show ?thesis by (simp add: mult_strict_right_mono)
  qed
  also have "\<dots> = 2 powi (int p + k)"
    by (simp add: power_int_add)
  finally have "\<bar>x\<bar> < 2 powi (int p + k)" .
  moreover have "(2 :: real) powr real_of_int (int p + k) = 2 powi (int p + k)"
    using powr_real_of_int' [of "2 :: real" "int p + k"] by simp
  ultimately have "log 2 \<bar>x\<bar> < real_of_int (int p + k)"
    using x0 by (simp add: log_less_iff)
  then have "\<lfloor>log 2 \<bar>x\<bar>\<rfloor> < int p + k"
    by (simp only: floor_less_iff)
  moreover have "exponent_of \<bar>x\<bar> = \<lfloor>log 2 \<bar>x\<bar>\<rfloor>"
    using x0 by (simp add: exponent_of_floor_log)
  ultimately have "exponent_of \<bar>x\<bar> < int p + k"
    by simp
  then have ek: "e \<le> k"
    using assms(2) by (simp add: e_def)
  have "x / 2 powi e = of_int m * 2 powi (k - e)"
    by (simp add: x_def power_int_diff)
  also have "\<dots> = of_int (m * 2 ^ nat (k - e))"
    using ek by (simp add: power_int_nonneg_exp)
  finally have "round_even (x / 2 powi e) = m * 2 ^ nat (k - e)"
    by (simp only: round_even_of_int)
  then have "of_int (round_even (x / 2 powi e)) * 2 powi e = of_int m * 2 powi (k - e) * 2 powi e"
    using ek by (simp add: power_int_nonneg_exp)
  also have "\<dots> = x"
    by (simp add: x_def power_int_diff)
  finally show ?thesis
    using x0 by (simp add: round_binary_def Let_def e_def [symmetric] x_def [symmetric])
qed

lemma round_binary_nonneg: "0 \<le> x \<Longrightarrow> 0 \<le> round_binary p emin x"
  by (simp add: round_binary_def Let_def round_even_nonneg)

lemma fp_less_irrefl: "\<not> fp_less a a"
  by (cases a) simp_all

lemma fp_less_trans: "fp_less a b \<Longrightarrow> fp_less b c \<Longrightarrow> fp_less a c"
  by (cases a; cases b; cases c) simp_all

lemma fp_less_asym: "fp_less a b \<Longrightarrow> \<not> fp_less b a"
  by (cases a; cases b) simp_all

lemma fp_less_not_NaN: "fp_less a b \<Longrightarrow> a \<noteq> NaN \<and> b \<noteq> NaN"
  by (cases a; cases b) simp_all

lemma fp_less_le_trans: "fp_less a c \<Longrightarrow> \<not> fp_less a b \<Longrightarrow> b \<noteq> NaN \<Longrightarrow> fp_less b c"
  by (cases a; cases b; cases c) simp_all

lemma fp_mul_Finite [simp]: "fp_mul rnd (Finite x) (Finite y) = rnd (x * y)"
  by (simp add: fp_mul_def)

lemma fp_add_Finite [simp]: "fp_add rnd (Finite x) (Finite y) = rnd (x + y)"
  by (simp add: fp_add_def)

lemma fp_div_Finite [simp]: "fp_div rnd (Finite x) d = rnd (x / d)"
  by (simp add: fp_div_def)

lemma to_format_exact:
  assumes "\<bar>m\<bar> < 2 ^ p" "emin - (int p - 1) \<le> k" "\<bar>of_int m * 2 powi k\<bar> < (2 :: real) powi (emax + 1)"
  shows "to_format p emin emax (of_int m * 2 powi k) = Finite (of_int m * 2 powi k)"
  using assms(3) by (simp add: to_format_def round_binary_exact [OF assms(1,2)] Let_def)

lemma to_float_exact:
  assumes "\<bar>m\<bar> < 2 ^ 24" "- 149 \<le> k" "\<bar>of_int m * 2 powi k\<bar> < (2 :: real) ^ 128"
  shows "to_float (of_int m * 2 powi k) = Finite (of_int m * 2 powi k)"
  unfolding to_float_def using assms by (intro to_format_exact) simp_all

lemma to_double_exact:
  assumes "\<bar>m\<bar> < 2 ^ 53" "- 1074 \<le> k" "\<bar>of_int m * 2 powi k\<bar> < (2 :: real) ^ 1024"
  shows "to_double (of_int m * 2 powi k) = Finite (of_int m * 2 powi k)"
  unfolding to_double_def using assms by (intro to_format_exact) simp_all

lemma to_format_nonneg:
  assumes "0 \<le> x"
  shows "to_format p emin emax x = PlusInfinity \<or> (\<exists>y. to_format p emin emax x = Finite y \<and> 0 \<le> y)"
proof (cases "x = 0")
  case True
  then show ?thesis by (simp add: to_format_def round_binary_def not_le)
next
  case False
  then have "0 < x" using assms by simp
  then show ?thesis
    using round_binary_nonneg [OF assms, of p emin] by (simp add: to_format_def Let_def)
qed

lemma square_not_negative: "\<not> fp_negative (fp_mul (to_format p emin emax) a a)"
proof (cases a)
  case (Finite x)
  then show ?thesis
    using to_format_nonneg [of "x * x" p emin emax] by auto
qed (simp_all add: fp_mul_def)

lemma add_not_negative:
  assumes "\<not> fp_negative a" "\<not> fp_negative b"
  shows "\<not> fp_negative (fp_add (to_format p emin emax) a b)"
proof (cases a)
  case (Finite x)
  note a = this
  show ?thesis
  proof (cases b)
    case (Finite y)
    then show ?thesis
      using assms a to_format_nonneg [of "x + y" p emin emax] by auto
  qed (use assms a in \<open>simp_all add: fp_add_def\<close>)
qed (use assms in \<open>auto simp: fp_add_def\<close>)

lemma Value_ieee_not_negative: "\<not> fp_negative (Value_ieee re im)"
  unfolding Value_ieee_def to_float_def by (intro add_not_negative square_not_negative)

lemma not_negative_less: "\<not> fp_negative a \<Longrightarrow> a = NaN \<or> fp_less (Finite (- 1)) a"
  by (cases a) simp_all

lemma to_float_eval:
  assumes "2 powi k \<le> \<bar>x\<bar>" "\<bar>x\<bar> < 2 powi (k + 1)" "- 126 \<le> k"
    and "round_even (x / 2 powi (k - 23)) = m"
    and "\<bar>of_int m * 2 powi (k - 23)\<bar> < (2 :: real) ^ 128"
  shows "to_float x = Finite (of_int m * 2 powi (k - 23))"
proof -
  have "round_binary 24 (- 126) x = of_int m * 2 powi (k - 23)"
    using round_binary_eval [OF assms(1,2,3), of 24] assms(4) by simp
  then show ?thesis
    using assms(5) by (simp add: to_float_def to_format_def Let_def)
qed

lemma to_float_0: "to_float 0 = Finite 0"
  by (simp add: to_float_def to_format_def round_binary_def not_le)

lemma to_double_0: "to_double 0 = Finite 0"
  by (simp add: to_double_def to_format_def round_binary_def not_le)

lemma to_float_values:
  "to_float 1 = Finite 1" "to_float 256 = Finite 256" "to_float (1 / 256) = Finite (1 / 256)"
  "to_float (1 / 67108864) = Finite (1 / 67108864)"
  "to_float (- (3 / 1024)) = Finite (- (3 / 1024))" "to_float (- (3 / 4)) = Finite (- (3 / 4))"
  using to_float_exact [of 1 0] to_float_exact [of 1 8] to_float_exact [of 1 "- 8"]
    to_float_exact [of 1 "- 26"] to_float_exact [of "- 3" "- 10"] to_float_exact [of "- 3" "- 2"]
  by (simp_all add: power_int_minus)

lemma to_double_values:
  "to_double (1 / 2) = Finite (1 / 2)" "to_double (3 / 2) = Finite (3 / 2)"
  "to_double (- (1 / 4)) = Finite (- (1 / 4))"
  using to_double_exact [of 1 "- 1"] to_double_exact [of 3 "- 1"] to_double_exact [of "- 1" "- 2"]
  by (simp_all add: power_int_minus)

lemma to_float_tie: "to_float (67108865 / 67108864) = Finite 1"
proof -
  have "round_binary 24 (- 126) (67108865 / 67108864) =
          of_int (round_even ((67108865 / 67108864) / 2 powi (0 - (int 24 - 1)))) * 2 powi (0 - (int 24 - 1))"
    by (rule round_binary_eval) simp_all
  also have "\<dots> = 1"
    by (simp add: power_int_minus round_even_def Let_def)
  finally show ?thesis
    by (simp add: to_float_def to_format_def Let_def)
qed

subsection \<open>The search for the strongest candidate, in IEEE arithmetic\<close>

lemma FindTone_loop_ieee_unfold:
  "FindTone_loop_ieee B F N i mv mi =
     (if i < N then
        (case candidate_Value_ieee B F i of
           Inl e \<Rightarrow> Inl e
         | Inr Value \<Rightarrow>
             (if fp_less mv Value
              then FindTone_loop_ieee B F N (i + 1) Value i
              else FindTone_loop_ieee B F N (i + 1) mv mi))
      else Inr mi)"
  by (rule FindTone_loop_ieee.simps)

lemma FindTone_loop_ieee_result:
  assumes "\<forall>j. i \<le> j \<and> j < N \<longrightarrow> candidate_Value_ieee B F j = Inr (v j)"
  shows "\<exists>r. FindTone_loop_ieee B F N i mv mi = Inr r \<and>
           ((r = mi \<and> (\<forall>j. i \<le> j \<and> j < N \<longrightarrow> \<not> fp_less mv (v j))) \<or>
            (i \<le> r \<and> r < N \<and> fp_less mv (v r)
               \<and> (\<forall>j. i \<le> j \<and> j < N \<longrightarrow> \<not> fp_less (v r) (v j))
               \<and> (\<forall>j. i \<le> j \<and> j < r \<longrightarrow> v j = NaN \<or> fp_less (v j) (v r))))"
  using assms
proof (induction B F N i mv mi rule: FindTone_loop_ieee.induct)
  case (1 B F N i mv mi)
  show ?case
  proof (cases "i < N")
    case False
    then show ?thesis
      by (subst FindTone_loop_ieee_unfold) auto
  next
    case True
    then have cv: "candidate_Value_ieee B F i = Inr (v i)"
      using "1.prems" by simp
    have rest: "\<forall>j. i + 1 \<le> j \<and> j < N \<longrightarrow> candidate_Value_ieee B F j = Inr (v j)"
      using "1.prems" by simp
    have split: "i + 1 \<le> j \<or> j = i" if "i \<le> j" for j
      using that by auto
    show ?thesis
    proof (cases "fp_less mv (v i)")
      case gt: True
      have step: "FindTone_loop_ieee B F N i mv mi = FindTone_loop_ieee B F N (i + 1) (v i) i"
        by (subst FindTone_loop_ieee_unfold) (simp add: True cv gt)
      obtain r where r: "FindTone_loop_ieee B F N (i + 1) (v i) i = Inr r"
        and d: "(r = i \<and> (\<forall>j. i + 1 \<le> j \<and> j < N \<longrightarrow> \<not> fp_less (v i) (v j))) \<or>
            (i + 1 \<le> r \<and> r < N \<and> fp_less (v i) (v r)
               \<and> (\<forall>j. i + 1 \<le> j \<and> j < N \<longrightarrow> \<not> fp_less (v r) (v j))
               \<and> (\<forall>j. i + 1 \<le> j \<and> j < r \<longrightarrow> v j = NaN \<or> fp_less (v j) (v r)))"
        using "1.IH"(1) [OF True cv gt rest] by blast
      from d show ?thesis
      proof
        assume a: "r = i \<and> (\<forall>j. i + 1 \<le> j \<and> j < N \<longrightarrow> \<not> fp_less (v i) (v j))"
        have "\<forall>j. i \<le> j \<and> j < N \<longrightarrow> \<not> fp_less (v r) (v j)"
          using a split fp_less_irrefl by metis
        moreover have "\<forall>j. i \<le> j \<and> j < r \<longrightarrow> v j = NaN \<or> fp_less (v j) (v r)"
          using a by auto
        ultimately show ?thesis
          using step r a True gt by simp
      next
        assume a: "i + 1 \<le> r \<and> r < N \<and> fp_less (v i) (v r)
               \<and> (\<forall>j. i + 1 \<le> j \<and> j < N \<longrightarrow> \<not> fp_less (v r) (v j))
               \<and> (\<forall>j. i + 1 \<le> j \<and> j < r \<longrightarrow> v j = NaN \<or> fp_less (v j) (v r))"
        have m: "fp_less mv (v r)"
          using gt a fp_less_trans by blast
        have n: "\<not> fp_less (v r) (v i)"
          using a fp_less_asym by blast
        have "\<forall>j. i \<le> j \<and> j < N \<longrightarrow> \<not> fp_less (v r) (v j)"
          using a n split by metis
        moreover have "\<forall>j. i \<le> j \<and> j < r \<longrightarrow> v j = NaN \<or> fp_less (v j) (v r)"
          using a split by metis
        moreover have "i \<le> r" using a by simp
        ultimately show ?thesis
          using step r a m by simp
      qed
    next
      case le: False
      have step: "FindTone_loop_ieee B F N i mv mi = FindTone_loop_ieee B F N (i + 1) mv mi"
        by (subst FindTone_loop_ieee_unfold) (simp add: True cv le)
      obtain r where r: "FindTone_loop_ieee B F N (i + 1) mv mi = Inr r"
        and d: "(r = mi \<and> (\<forall>j. i + 1 \<le> j \<and> j < N \<longrightarrow> \<not> fp_less mv (v j))) \<or>
            (i + 1 \<le> r \<and> r < N \<and> fp_less mv (v r)
               \<and> (\<forall>j. i + 1 \<le> j \<and> j < N \<longrightarrow> \<not> fp_less (v r) (v j))
               \<and> (\<forall>j. i + 1 \<le> j \<and> j < r \<longrightarrow> v j = NaN \<or> fp_less (v j) (v r)))"
        using "1.IH"(2) [OF True cv le rest] by blast
      from d show ?thesis
      proof
        assume a: "r = mi \<and> (\<forall>j. i + 1 \<le> j \<and> j < N \<longrightarrow> \<not> fp_less mv (v j))"
        have "\<forall>j. i \<le> j \<and> j < N \<longrightarrow> \<not> fp_less mv (v j)"
          using a le split by metis
        then show ?thesis using step r a by simp
      next
        assume a: "i + 1 \<le> r \<and> r < N \<and> fp_less mv (v r)
               \<and> (\<forall>j. i + 1 \<le> j \<and> j < N \<longrightarrow> \<not> fp_less (v r) (v j))
               \<and> (\<forall>j. i + 1 \<le> j \<and> j < r \<longrightarrow> v j = NaN \<or> fp_less (v j) (v r))"
        have n: "\<not> fp_less (v r) (v i)"
        proof
          assume "fp_less (v r) (v i)"
          then have "fp_less mv (v i)" using a fp_less_trans by blast
          then show False using le by simp
        qed
        have b: "v i = NaN \<or> fp_less (v i) (v r)"
          using a le fp_less_le_trans by blast
        have "\<forall>j. i \<le> j \<and> j < N \<longrightarrow> \<not> fp_less (v r) (v j)"
          using a n split by metis
        moreover have "\<forall>j. i \<le> j \<and> j < r \<longrightarrow> v j = NaN \<or> fp_less (v j) (v r)"
          using a b split by metis
        moreover have "i \<le> r" using a by simp
        ultimately show ?thesis using step r a by simp
      qed
    qed
  qed
qed

lemma candidate_Value_ieee_parts:
  assumes "candidate_Value_ieee B F (int j) = Inr V"
  shows "\<exists>x k re im. scaled_ieee (F ! j) = Finite x
           \<and> k = (if 0 \<le> x then \<lfloor>x\<rfloor> else \<lceil>x\<rceil>)
           \<and> bin_index_ieee (F ! j) = Inr k
           \<and> ptr_read_ieee (realp_ieee B) k = Inr re
           \<and> ptr_read_ieee (imagp_ieee B) k = Inr im
           \<and> V = Value_ieee re im"
proof -
  have "j < length F"
    using assms by (auto simp: candidate_Value_ieee_def array_read_def split: sum.splits if_splits)
  then have f: "array_read F (int j) = Inr (F ! j)"
    by (rule array_read_nth)
  obtain k where k: "bin_index_ieee (F ! j) = Inr k"
    using assms(1) f by (auto simp: candidate_Value_ieee_def split: sum.splits)
  obtain x where x: "scaled_ieee (F ! j) = Finite x" "double_to_int x = Inr k"
    using k by (auto simp: bin_index_ieee_def fp_to_int_def split: fp.splits)
  have kx: "k = (if 0 \<le> x then \<lfloor>x\<rfloor> else \<lceil>x\<rceil>)"
    using x(2) by (auto simp: double_to_int_def Let_def split: if_splits)
  obtain re where re: "ptr_read_ieee (realp_ieee B) k = Inr re"
    using assms(1) f k by (auto simp: candidate_Value_ieee_def split: sum.splits)
  obtain im where im: "ptr_read_ieee (imagp_ieee B) k = Inr im"
    using assms(1) f k re by (auto simp: candidate_Value_ieee_def split: sum.splits)
  have "V = Value_ieee re im"
    using assms(1) f k re im by (simp add: candidate_Value_ieee_def)
  then show ?thesis
    using x(1) kx k re im by blast
qed

lemma candidate_Value_ieee_nonneg:
  assumes "candidate_Value_ieee B F i = Inr V"
  shows "V = NaN \<or> fp_less (Finite (- 1)) V"
proof -
  obtain re im where "V = Value_ieee re im"
    using assms by (auto simp: candidate_Value_ieee_def split: sum.splits)
  then show ?thesis
    using not_negative_less [OF Value_ieee_not_negative [of re im]] by simp
qed

text \<open>
  Claim C1, as amended.  There are \<open>N > 0\<close> candidates in the array \<open>F\<close>, and
  no read is undefined: for every candidate the index that the program computes is an
  \<^verbatim>\<open>int\<close> and lies within both arrays of the buffer; \<open>V j\<close> is the \<^verbatim>\<open>Value\<close> of
  candidate \<open>j\<close>.  Then the index of a candidate \<open>f\<close> is the value of
  \<^verbatim>\<open>f / SamplingFrequency * SampleLength + .5\<close> in the arithmetic of the program, the
  quotient and the product rounded to \<^verbatim>\<open>float\<close>, truncated toward zero (the floor for a
  value that is not negative); its \<^verbatim>\<open>Value\<close> is \<^verbatim>\<open>re*re + im*im\<close> in \<^verbatim>\<open>float\<close>
  arithmetic, of the two elements read at that index.  \<^verbatim>\<open>FindTone\<close> returns an index
  \<open>r\<close> of \<open>F\<close> such that no candidate's \<^verbatim>\<open>Value\<close> is greater than \<open>V r\<close> and the
  \<^verbatim>\<open>Value\<close> of every candidate before \<open>r\<close> is less than \<open>V r\<close> or is NaN: of the
  candidates with the greatest \<^verbatim>\<open>Value\<close>, the one with the lowest index.  Only when every
  \<^verbatim>\<open>Value\<close> is NaN is \<open>V r\<close> NaN, and then \<open>r\<close> is 0.
\<close>

theorem FindTone_ieee_first_maximum:
  assumes "0 < N" and "\<forall>j < N. candidate_Value_ieee B F (int j) = Inr (V j)"
  shows "(\<forall>j < N. \<exists>x k re im. scaled_ieee (F ! j) = Finite x
            \<and> k = (if 0 \<le> x then \<lfloor>x\<rfloor> else \<lceil>x\<rceil>)
            \<and> bin_index_ieee (F ! j) = Inr k
            \<and> ptr_read_ieee (realp_ieee B) k = Inr re
            \<and> ptr_read_ieee (imagp_ieee B) k = Inr im
            \<and> V j = Value_ieee re im)
         \<and> (\<exists>r < N. FindTone_ieee B F (int N) = Inr (int r)
              \<and> (\<forall>j < N. \<not> fp_less (V r) (V j))
              \<and> (\<forall>j < r. V j = NaN \<or> fp_less (V j) (V r))
              \<and> (V r = NaN \<longrightarrow> r = 0 \<and> (\<forall>j < N. V j = NaN)))"
proof -
  have parts: "\<forall>j < N. \<exists>x k re im. scaled_ieee (F ! j) = Finite x
            \<and> k = (if 0 \<le> x then \<lfloor>x\<rfloor> else \<lceil>x\<rceil>)
            \<and> bin_index_ieee (F ! j) = Inr k
            \<and> ptr_read_ieee (realp_ieee B) k = Inr re
            \<and> ptr_read_ieee (imagp_ieee B) k = Inr im
            \<and> V j = Value_ieee re im"
    using assms(2) candidate_Value_ieee_parts by blast
  define v where "v = (\<lambda>j :: int. V (nat j))"
  have cv: "\<forall>j. 0 \<le> j \<and> j < int N \<longrightarrow> candidate_Value_ieee B F j = Inr (v j)"
  proof (intro allI impI)
    fix j :: int assume j: "0 \<le> j \<and> j < int N"
    then have "nat j < N" by (auto simp: nat_less_iff)
    then have "candidate_Value_ieee B F (int (nat j)) = Inr (V (nat j))"
      using assms(2) by blast
    then show "candidate_Value_ieee B F j = Inr (v j)"
      using j by (simp add: v_def)
  qed
  have nn: "v j = NaN \<or> fp_less (Finite (- 1)) (v j)" if "0 \<le> j \<and> j < int N" for j
    using cv that candidate_Value_ieee_nonneg by blast
  obtain r where r: "FindTone_loop_ieee B F (int N) 0 (Finite (- 1)) 0 = Inr r"
    and d: "(r = 0 \<and> (\<forall>j. 0 \<le> j \<and> j < int N \<longrightarrow> \<not> fp_less (Finite (- 1)) (v j))) \<or>
        (0 \<le> r \<and> r < int N \<and> fp_less (Finite (- 1)) (v r)
           \<and> (\<forall>j. 0 \<le> j \<and> j < int N \<longrightarrow> \<not> fp_less (v r) (v j))
           \<and> (\<forall>j. 0 \<le> j \<and> j < r \<longrightarrow> v j = NaN \<or> fp_less (v j) (v r)))"
    using FindTone_loop_ieee_result [OF cv, of "Finite (- 1)" 0] by blast
  have pos: "0 < int N"
    using assms(1) by simp
  have res: "0 \<le> r \<and> r < int N
      \<and> (\<forall>j. 0 \<le> j \<and> j < int N \<longrightarrow> \<not> fp_less (v r) (v j))
      \<and> (\<forall>j. 0 \<le> j \<and> j < r \<longrightarrow> v j = NaN \<or> fp_less (v j) (v r))
      \<and> (v r = NaN \<longrightarrow> r = 0 \<and> (\<forall>j. 0 \<le> j \<and> j < int N \<longrightarrow> v j = NaN))"
    using d
  proof
    assume a: "r = 0 \<and> (\<forall>j. 0 \<le> j \<and> j < int N \<longrightarrow> \<not> fp_less (Finite (- 1)) (v j))"
    then have all: "\<forall>j. 0 \<le> j \<and> j < int N \<longrightarrow> v j = NaN"
      using nn by blast
    then have "v r = NaN" using a pos by simp
    then have "\<forall>j. 0 \<le> j \<and> j < int N \<longrightarrow> \<not> fp_less (v r) (v j)"
      by simp
    then show ?thesis
      using a all pos by simp
  next
    assume a: "0 \<le> r \<and> r < int N \<and> fp_less (Finite (- 1)) (v r)
           \<and> (\<forall>j. 0 \<le> j \<and> j < int N \<longrightarrow> \<not> fp_less (v r) (v j))
           \<and> (\<forall>j. 0 \<le> j \<and> j < r \<longrightarrow> v j = NaN \<or> fp_less (v j) (v r))"
    then have "v r \<noteq> NaN"
      using fp_less_not_NaN by blast
    then show ?thesis using a by simp
  qed
  have a: "nat r < N" using res by (auto simp: nat_less_iff)
  have b: "FindTone_ieee B F (int N) = Inr (int (nat r))"
    using r res by (simp add: FindTone_ieee_def)
  have vr: "v r = V (nat r)" by (simp add: v_def)
  have c: "\<forall>j < N. \<not> fp_less (V (nat r)) (V j)"
  proof (intro allI impI)
    fix j assume "j < N"
    then have "\<not> fp_less (v r) (v (int j))" using res by simp
    then show "\<not> fp_less (V (nat r)) (V j)" by (simp add: v_def)
  qed
  have e: "\<forall>j < nat r. V j = NaN \<or> fp_less (V j) (V (nat r))"
  proof (intro allI impI)
    fix j assume "j < nat r"
    then have "v (int j) = NaN \<or> fp_less (v (int j)) (v r)" using res by simp
    then show "V j = NaN \<or> fp_less (V j) (V (nat r))" by (simp add: v_def)
  qed
  have g: "V (nat r) = NaN \<longrightarrow> nat r = 0 \<and> (\<forall>j < N. V j = NaN)"
  proof
    assume "V (nat r) = NaN"
    then have h: "r = 0 \<and> (\<forall>j. 0 \<le> j \<and> j < int N \<longrightarrow> v j = NaN)"
      using res vr by simp
    have "\<forall>j < N. V j = NaN"
    proof (intro allI impI)
      fix j assume "j < N"
      then have "v (int j) = NaN" using h by simp
      then show "V j = NaN" by (simp add: v_def)
    qed
    then show "nat r = 0 \<and> (\<forall>j < N. V j = NaN)" using h by simp
  qed
  have "\<exists>r < N. FindTone_ieee B F (int N) = Inr (int r)
              \<and> (\<forall>j < N. \<not> fp_less (V r) (V j))
              \<and> (\<forall>j < r. V j = NaN \<or> fp_less (V j) (V r))
              \<and> (V r = NaN \<longrightarrow> r = 0 \<and> (\<forall>j < N. V j = NaN))"
    using a b c e g by blast
  then show ?thesis
    using parts by (rule conjI [rotated])
qed

text \<open>
  Some values of the program's arithmetic.  In the second \<^verbatim>\<open>Value\<close> the exact sum
  \<open>1 + 2 ^ - 26\<close> is rounded to 1: two candidates whose exact squared magnitudes differ
  have the same \<^verbatim>\<open>Value\<close>, and the first is returned.
\<close>

lemma constants_real: "real SampleLength = 256" "real_of_int SamplingFrequency = 3266"
  by (simp_all add: SampleLength_def Log2SampleLength_def SamplingFrequency_def)

lemma ceiling_quarter: "\<lceil>- (1 / 4 :: real)\<rceil> = 0"
  by (simp add: ceiling_eq_iff)

lemma bin_index_ieee_examples: "bin_index_ieee (Finite 0) = Inr 0" "bin_index_ieee (Finite (1633 / 128)) = Inr 1"
  "bin_index_ieee (Finite (- (4899 / 512))) = Inr 0"
  by (simp_all add: bin_index_ieee_def scaled_ieee_def constants_real to_float_0 to_float_values
      to_double_values fp_to_int_def double_to_int_def Let_def ceiling_quarter)

lemma Value_examples:
  "Value_ieee (Finite 1) (Finite 0) = Finite 1"
  "Value_ieee (Finite 1) (Finite (1 / 8192)) = Finite 1"
  by (simp_all add: Value_ieee_def to_float_0 to_float_values to_float_tie)

lemma candidate_Value_ieee_examples:
  "candidate_Value_ieee \<lparr>realp_ieee = ([Finite 1, Finite 1], 0),
       imagp_ieee = ([Finite 0, Finite (1 / 8192)], 0)\<rparr> [Finite 0, Finite (1633 / 128)] 0 = Inr (Finite 1)"
  "candidate_Value_ieee \<lparr>realp_ieee = ([Finite 1, Finite 1], 0),
       imagp_ieee = ([Finite 0, Finite (1 / 8192)], 0)\<rparr> [Finite 0, Finite (1633 / 128)] 1 = Inr (Finite 1)"
  by (simp_all add: candidate_Value_ieee_def ptr_read_ieee_def array_read_def bin_index_ieee_examples Value_examples)

theorem FindTone_ieee_first_maximum_witness:
  "FindTone_ieee \<lparr>realp_ieee = ([Finite 1, Finite 1], 0),
       imagp_ieee = ([Finite 0, Finite (1 / 8192)], 0)\<rparr> [Finite 0, Finite (1633 / 128)] 2 = Inr 0"
proof -
  define B where "B = \<lparr>realp_ieee = ([Finite 1, Finite 1], 0 :: int),
       imagp_ieee = ([Finite 0, Finite (1 / 8192)], 0 :: int)\<rparr>"
  define F where "F = [Finite 0, Finite (1633 / 128)]"
  define V where "V = (\<lambda>j :: nat. Finite 1)"
  have h1: "0 < (2 :: nat)" by simp
  have h2: "\<forall>j < 2. candidate_Value_ieee B F (int j) = Inr (V j)"
  proof (intro allI impI)
    fix j :: nat assume "j < 2"
    then have "j = 0 \<or> j = 1" by auto
    then show "candidate_Value_ieee B F (int j) = Inr (V j)"
      using candidate_Value_ieee_examples by (auto simp: B_def F_def V_def)
  qed
  obtain r where r: "r < 2" "FindTone_ieee B F (int 2) = Inr (int r)"
    "\<forall>j < r. V j = NaN \<or> fp_less (V j) (V r)"
    using FindTone_ieee_first_maximum [OF h1 h2, THEN conjunct2] by blast
  have "r = 0"
  proof (rule ccontr)
    assume "r \<noteq> 0"
    then have "V 0 = NaN \<or> fp_less (V 0) (V r)" using r(3) by simp
    then show False by (simp add: V_def)
  qed
  then show ?thesis
    using r(2) by (simp add: B_def F_def)
qed

text \<open>
  The claim as it was stated fails for a negative frequency.  For \<open>f = - 4899 / 512\<close>
  the quotient \<open>- 3 / 1024\<close>, the product \<open>- 3 / 4\<close> and the sum \<open>- 1 / 4\<close> are exact;
  the program truncates the sum to the index 0 and reads the buffer there, and the floor
  of the sum is \<open>- 1\<close>.  It fails for scores that the arithmetic of the program does not
  tell apart as well: of two candidates with the squared magnitudes 1 and \<open>1 + 2 ^ - 26\<close>
  the second has the strictly greatest score, and the program returns the first, since
  both have the \<^verbatim>\<open>Value\<close> 1.
\<close>

theorem FindTone_truncates_and_rounds:
  "bin_index_ieee (Finite (- (4899 / 512))) = Inr 0
   \<and> \<lfloor>- (4899 / 512 :: real) / 3266 * 256 + 1 / 2\<rfloor> = - 1
   \<and> FindTone_ieee \<lparr>realp_ieee = ([Finite 1], 0), imagp_ieee = ([Finite 0], 0)\<rparr>
         [Finite (- (4899 / 512))] 1 = Inr 0
   \<and> FindTone_ieee \<lparr>realp_ieee = ([Finite 1, Finite 1], 0),
         imagp_ieee = ([Finite 0, Finite (1 / 8192)], 0)\<rparr> [Finite 0, Finite (1633 / 128)] 2 = Inr 0
   \<and> (1 :: real) * 1 + 0 * 0 < 1 * 1 + 1 / 8192 * (1 / 8192)
   \<and> FindTone \<lparr>realp = ([1, 1], 0), imagp = ([0, 1 / 8192], 0)\<rparr> [0, 1633 / 128] 2 = Inr 1"
proof -
  have c: "candidate_Value_ieee \<lparr>realp_ieee = ([Finite 1], 0), imagp_ieee = ([Finite 0], 0)\<rparr>
         [Finite (- (4899 / 512))] 0 = Inr (Finite 1)"
    by (simp add: candidate_Value_ieee_def ptr_read_ieee_def array_read_def bin_index_ieee_examples Value_examples)
  have t: "FindTone_ieee \<lparr>realp_ieee = ([Finite 1], 0), imagp_ieee = ([Finite 0], 0)\<rparr>
         [Finite (- (4899 / 512))] 1 = Inr 0"
    by (simp add: FindTone_ieee_def FindTone_loop_ieee_unfold [of _ _ 1 0]
        FindTone_loop_ieee_unfold [of _ _ 1 1] c)
  have u: "FindTone_ieee \<lparr>realp_ieee = ([Finite 1, Finite 1], 0),
         imagp_ieee = ([Finite 0, Finite (1 / 8192)], 0)\<rparr> [Finite 0, Finite (1633 / 128)] 2 = Inr 0"
    by (simp add: FindTone_ieee_def FindTone_loop_ieee_unfold [of _ _ 2 0]
        FindTone_loop_ieee_unfold [of _ _ 2 1] FindTone_loop_ieee_unfold [of _ _ 2 2]
        candidate_Value_ieee_examples)
  have e0: "candidate_Value \<lparr>realp = ([1, 1], 0), imagp = ([0, 1 / 8192], 0)\<rparr>
         [0, 1633 / 128] 0 = Inr 1"
    and e1: "candidate_Value \<lparr>realp = ([1, 1], 0), imagp = ([0, 1 / 8192], 0)\<rparr>
         [0, 1633 / 128] 1 = Inr (67108865 / 67108864)"
    by (simp_all add: candidate_Value_def array_read_def ptr_read_def bin_index_def
        double_to_int_def SamplingFrequency_def SampleLength_def Log2SampleLength_def Let_def)
  have w: "FindTone \<lparr>realp = ([1, 1], 0), imagp = ([0, 1 / 8192], 0)\<rparr> [0, 1633 / 128] 2 = Inr 1"
    by (simp add: FindTone_def FindTone_loop_unfold [of _ _ 2 0]
        FindTone_loop_unfold [of _ _ 2 1] FindTone_loop_unfold [of _ _ 2 2] e0 e1)
  show ?thesis
    using bin_index_ieee_examples(3) t u w by simp
qed

text \<open>
  The quotient is rounded before it is scaled.  For the frequency \<open>104518.375\<close> the
  exact value of \<open>f / 3266 * 256 + 0.5\<close> is below 8193, and the index with exact
  arithmetic is 8192; the quotient in \<^verbatim>\<open>float\<close> is \<open>32 + 2 ^ - 9\<close>, and the index of
  the program is 8193.
\<close>

lemma bin_index_ieee_rounds_quotient:
  "bin_index_ieee (Finite (836147 / 8)) = Inr 8193 \<and> bin_index (836147 / 8) = Inr 8192"
proof -
  have "round_binary 24 (- 126) (836147 / 26128) =
          of_int (round_even ((836147 / 26128) / 2 powi (5 - (int 24 - 1)))) * 2 powi (5 - (int 24 - 1))"
    by (rule round_binary_eval) simp_all
  also have "\<dots> = 16385 / 512"
    by (simp add: power_int_minus round_even_def Let_def)
  finally have q: "to_float (836147 / 26128) = Finite (16385 / 512)"
    by (simp add: to_float_def to_format_def Let_def)
  have m: "to_float (16385 / 2) = Finite (16385 / 2)"
    using to_float_exact [of 16385 "- 1"] by (simp add: power_int_minus)
  have d: "to_double 8193 = Finite 8193"
    using to_double_exact [of 8193 0] by simp
  have "bin_index_ieee (Finite (836147 / 8)) = Inr 8193"
    by (simp add: bin_index_ieee_def scaled_ieee_def constants_real q m d to_float_values
        fp_to_int_def double_to_int_def Let_def)
  moreover have "bin_index (836147 / 8) = Inr 8192"
    by (simp add: bin_index_def double_to_int_def Let_def constants_real)
  ultimately show ?thesis by simp
qed

text \<open>The indices of the frequencies of the key table in the arithmetic of the program.\<close>

lemma bin_index_ieee_steps:
  assumes "to_float (f / 3266) = Finite q" "to_float (q * 256) = Finite s"
    "to_double (s + 1 / 2) = Finite d" "double_to_int d = Inr b"
  shows "bin_index_ieee (Finite f) = Inr b"
  using assms by (simp add: bin_index_ieee_def scaled_ieee_def constants_real to_float_values fp_to_int_def)

lemma bin_index_ieee_1209: "bin_index_ieee (Finite 1209) = Inr 95"
proof (rule bin_index_ieee_steps)
  show "to_float (1209 / 3266) = Finite (12421099 / 33554432)"
    using to_float_eval [of "- 2" "1209 / 3266" 12421099]
    by (simp add: power_int_minus round_even_def Let_def)
  show "to_float (12421099 / 33554432 * 256) = Finite (12421099 / 131072)"
    using to_float_exact [of 12421099 "- 17"] by (simp add: power_int_minus)
  show "to_double (12421099 / 131072 + 1 / 2) = Finite (12486635 / 131072)"
    using to_double_exact [of 12486635 "- 17"] by (simp add: power_int_minus)
  show "double_to_int (12486635 / 131072) = Inr 95"
    by (simp add: double_to_int_def Let_def)
qed

lemma bin_index_ieee_1336: "bin_index_ieee (Finite 1336) = Inr 105"
proof (rule bin_index_ieee_steps)
  show "to_float (1336 / 3266) = Finite (13725879 / 33554432)"
    using to_float_eval [of "- 2" "1336 / 3266" 13725879]
    by (simp add: power_int_minus round_even_def Let_def)
  show "to_float (13725879 / 33554432 * 256) = Finite (13725879 / 131072)"
    using to_float_exact [of 13725879 "- 17"] by (simp add: power_int_minus)
  show "to_double (13725879 / 131072 + 1 / 2) = Finite (13791415 / 131072)"
    using to_double_exact [of 13791415 "- 17"] by (simp add: power_int_minus)
  show "double_to_int (13791415 / 131072) = Inr 105"
    by (simp add: double_to_int_def Let_def)
qed

lemma bin_index_ieee_1477: "bin_index_ieee (Finite 1477) = Inr 116"
proof (rule bin_index_ieee_steps)
  show "to_float (1477 / 3266) = Finite (7587247 / 16777216)"
    using to_float_eval [of "- 2" "1477 / 3266" 15174494]
    by (simp add: power_int_minus round_even_def Let_def)
  show "to_float (7587247 / 16777216 * 256) = Finite (7587247 / 65536)"
    using to_float_exact [of 7587247 "- 16"] by (simp add: power_int_minus)
  show "to_double (7587247 / 65536 + 1 / 2) = Finite (7620015 / 65536)"
    using to_double_exact [of 7620015 "- 16"] by (simp add: power_int_minus)
  show "double_to_int (7620015 / 65536) = Inr 116"
    by (simp add: double_to_int_def Let_def)
qed

lemma bin_index_ieee_1633: "bin_index_ieee (Finite 1633) = Inr 128"
proof (rule bin_index_ieee_steps)
  show "to_float (1633 / 3266) = Finite (1 / 2)"
    using to_float_exact [of 1 "- 1"] by (simp add: power_int_minus)
  show "to_float (1 / 2 * 256) = Finite 128"
    using to_float_exact [of 1 7] by simp
  show "to_double (128 + 1 / 2) = Finite (257 / 2)"
    using to_double_exact [of 257 "- 1"] by (simp add: power_int_minus)
  show "double_to_int (257 / 2) = Inr 128"
    by (simp add: double_to_int_def Let_def)
qed

lemma bin_index_ieee_697: "bin_index_ieee (Finite 697) = Inr 55"
proof (rule bin_index_ieee_steps)
  show "to_float (697 / 3266) = Finite (14321763 / 67108864)"
    using to_float_eval [of "- 3" "697 / 3266" 14321763]
    by (simp add: power_int_minus round_even_def Let_def)
  show "to_float (14321763 / 67108864 * 256) = Finite (14321763 / 262144)"
    using to_float_exact [of 14321763 "- 18"] by (simp add: power_int_minus)
  show "to_double (14321763 / 262144 + 1 / 2) = Finite (14452835 / 262144)"
    using to_double_exact [of 14452835 "- 18"] by (simp add: power_int_minus)
  show "double_to_int (14452835 / 262144) = Inr 55"
    by (simp add: double_to_int_def Let_def)
qed

lemma bin_index_ieee_770: "bin_index_ieee (Finite 770) = Inr 60"
proof (rule bin_index_ieee_steps)
  show "to_float (770 / 3266) = Finite (15821747 / 67108864)"
    using to_float_eval [of "- 3" "770 / 3266" 15821747]
    by (simp add: power_int_minus round_even_def Let_def)
  show "to_float (15821747 / 67108864 * 256) = Finite (15821747 / 262144)"
    using to_float_exact [of 15821747 "- 18"] by (simp add: power_int_minus)
  show "to_double (15821747 / 262144 + 1 / 2) = Finite (15952819 / 262144)"
    using to_double_exact [of 15952819 "- 18"] by (simp add: power_int_minus)
  show "double_to_int (15952819 / 262144) = Inr 60"
    by (simp add: double_to_int_def Let_def)
qed

lemma bin_index_ieee_852: "bin_index_ieee (Finite 852) = Inr 67"
proof (rule bin_index_ieee_steps)
  show "to_float (852 / 3266) = Finite (4376665 / 16777216)"
    using to_float_eval [of "- 2" "852 / 3266" 8753330]
    by (simp add: power_int_minus round_even_def Let_def)
  show "to_float (4376665 / 16777216 * 256) = Finite (4376665 / 65536)"
    using to_float_exact [of 4376665 "- 16"] by (simp add: power_int_minus)
  show "to_double (4376665 / 65536 + 1 / 2) = Finite (4409433 / 65536)"
    using to_double_exact [of 4409433 "- 16"] by (simp add: power_int_minus)
  show "double_to_int (4409433 / 65536) = Inr 67"
    by (simp add: double_to_int_def Let_def)
qed

lemma bin_index_ieee_941: "bin_index_ieee (Finite 941) = Inr 74"
proof (rule bin_index_ieee_steps)
  show "to_float (941 / 3266) = Finite (1208463 / 4194304)"
    using to_float_eval [of "- 2" "941 / 3266" 9667704]
    by (simp add: power_int_minus round_even_def Let_def)
  show "to_float (1208463 / 4194304 * 256) = Finite (1208463 / 16384)"
    using to_float_exact [of 1208463 "- 14"] by (simp add: power_int_minus)
  show "to_double (1208463 / 16384 + 1 / 2) = Finite (1216655 / 16384)"
    using to_double_exact [of 1216655 "- 14"] by (simp add: power_int_minus)
  show "double_to_int (1216655 / 16384) = Inr 74"
    by (simp add: double_to_int_def Let_def)
qed

text \<open>
  On the frequencies of the key table the index with exact arithmetic is the index of
  the program.
\<close>

lemma bin_index_ieee_key_table:
  "\<forall>f \<in> set (DTMF0 @ DTMF1). bin_index_ieee (Finite f) = bin_index f"
proof -
  have "bin_index 1209 = Inr 95" "bin_index 1336 = Inr 105" "bin_index 1477 = Inr 116"
    "bin_index 1633 = Inr 128" "bin_index 697 = Inr 55" "bin_index 770 = Inr 60"
    "bin_index 852 = Inr 67" "bin_index 941 = Inr 74"
    by (simp_all add: bin_index_def double_to_int_def Let_def constants_real)
  then show ?thesis
    by (simp add: DTMF0_def DTMF1_def bin_index_ieee_1209 bin_index_ieee_1336
        bin_index_ieee_1477 bin_index_ieee_1633 bin_index_ieee_697 bin_index_ieee_770
        bin_index_ieee_852 bin_index_ieee_941)
qed

text \<open>
  In IEEE arithmetic as in exact arithmetic, a frequency whose scaled value
  \<open>f / 3266 * 256\<close> is an integer \<open>x\<close> and a half has the index \<open>x + 1\<close>: the quotient, the
  product and the sum are exact then.
\<close>

lemma bin_index_ieee_rounds_half_up:
  assumes "f / 3266 * 256 = of_int x + 1 / 2" "0 \<le> x" "x < 2 ^ 23"
  shows "bin_index_ieee (Finite f) = Inr (x + 1)"
proof (rule bin_index_ieee_steps)
  have b: "\<bar>2 * x + 1\<bar> < 2 ^ 24"
    using assms(2,3) by simp
  have r: "real_of_int (2 * x + 1) < 2 ^ 24"
    using b by (metis abs_of_nonneg assms(2) of_int_less_iff of_int_numeral of_int_power
        add_nonneg_nonneg mult_nonneg_nonneg zero_le_numeral zero_le_one)
  have q: "f / 3266 = of_int (2 * x + 1) * 2 powi (- 9)"
    using assms(1) by (simp add: power_int_minus field_simps)
  have "\<bar>real_of_int (2 * x + 1) * 2 powi (- 9)\<bar> < 2 ^ 128"
    using r assms(2) by (simp add: power_int_minus abs_mult field_simps)
  then show "to_float (f / 3266) = Finite (of_int (2 * x + 1) * 2 powi (- 9))"
    unfolding q using b by (intro to_float_exact) simp_all
  have p: "real_of_int (2 * x + 1) * 2 powi (- 9) * 256 = of_int (2 * x + 1) * 2 powi (- 1)"
    by (simp add: power_int_minus)
  have "\<bar>real_of_int (2 * x + 1) * 2 powi (- 1)\<bar> < 2 ^ 128"
    using r assms(2) by (simp add: power_int_minus abs_mult field_simps)
  then show "to_float (of_int (2 * x + 1) * 2 powi (- 9) * 256)
      = Finite (of_int (2 * x + 1) * 2 powi (- 1))"
    unfolding p using b by (intro to_float_exact) simp_all
  have s: "real_of_int (2 * x + 1) * 2 powi (- 1) + 1 / 2 = of_int (x + 1) * 2 powi 0"
    by (simp add: power_int_minus field_simps)
  have "real_of_int (x + 1) < 2 ^ 53"
    using r assms(2) by simp
  then have "\<bar>real_of_int (x + 1) * 2 powi 0\<bar> < 2 ^ 1024"
    using assms(2) by simp
  moreover have "\<bar>x + 1\<bar> < 2 ^ 53"
    using assms(2,3) by simp
  ultimately have "to_double (of_int (x + 1) * 2 powi 0) = Finite (of_int (x + 1) * 2 powi 0)"
    by (intro to_double_exact) simp_all
  then show "to_double (of_int (2 * x + 1) * 2 powi (- 1) + 1 / 2) = Finite (of_int (x + 1))"
    unfolding s by simp
  show "double_to_int (of_int (x + 1)) = Inr (x + 1)"
    using assms(2,3) by (simp add: double_to_int_def Let_def)
qed

subsection \<open>The reads of the search, in IEEE arithmetic\<close>

lemma FindTone_loop_ieee_cong:
  assumes "\<forall>j. i \<le> j \<and> j < N \<longrightarrow> candidate_Value_ieee B F j = candidate_Value_ieee B' F' j"
  shows "FindTone_loop_ieee B F N i mv mi = FindTone_loop_ieee B' F' N i mv mi"
  using assms
proof (induction B F N i mv mi rule: FindTone_loop_ieee.induct)
  case (1 B F N i mv mi)
  show ?case
  proof (cases "i < N")
    case False
    then show ?thesis
      by (simp add: FindTone_loop_ieee_unfold [of _ _ N i])
  next
    case True
    then have cv: "candidate_Value_ieee B F i = candidate_Value_ieee B' F' i"
      using "1.prems" by simp
    have rest: "\<forall>j. i + 1 \<le> j \<and> j < N \<longrightarrow>
        candidate_Value_ieee B F j = candidate_Value_ieee B' F' j"
      using "1.prems" by simp
    show ?thesis
    proof (cases "candidate_Value_ieee B F i")
      case (Inl e)
      then show ?thesis
        using cv True by (simp add: FindTone_loop_ieee_unfold [of _ _ N i])
    next
      case (Inr x)
      show ?thesis
      proof (cases "fp_less mv x")
        case gt: True
        show ?thesis
          using "1.IH"(1) [OF True Inr gt rest] Inr cv True gt
          by (simp add: FindTone_loop_ieee_unfold [of _ _ N i mv mi])
      next
        case le: False
        show ?thesis
          using "1.IH"(2) [OF True Inr le rest] Inr cv True le
          by (simp add: FindTone_loop_ieee_unfold [of _ _ N i mv mi])
      qed
    qed
  qed
qed

lemma FindTone_loop_ieee_fault:
  "FindTone_loop_ieee B F N i mv mi = Inl e \<Longrightarrow>
     \<exists>j. i \<le> j \<and> j < N \<and> candidate_Value_ieee B F j = Inl e"
proof (induction B F N i mv mi rule: FindTone_loop_ieee.induct)
  case (1 B F N i mv mi)
  show ?case
  proof (cases "i < N")
    case False
    then show ?thesis
      using "1.prems" by (simp add: FindTone_loop_ieee_unfold [of _ _ N i])
  next
    case True
    show ?thesis
    proof (cases "candidate_Value_ieee B F i")
      case (Inl e')
      then have "e' = e"
        using "1.prems" True by (simp add: FindTone_loop_ieee_unfold [of _ _ N i])
      then show ?thesis using Inl True by auto
    next
      case (Inr x)
      show ?thesis
      proof (cases "fp_less mv x")
        case gt: True
        have "FindTone_loop_ieee B F N (i + 1) x i = Inl e"
          using "1.prems" True Inr gt by (simp add: FindTone_loop_ieee_unfold [of _ _ N i mv mi])
        then obtain j where "i + 1 \<le> j \<and> j < N \<and> candidate_Value_ieee B F j = Inl e"
          using "1.IH"(1) [OF True Inr gt] by blast
        then have "i \<le> j \<and> j < N \<and> candidate_Value_ieee B F j = Inl e" by simp
        then show ?thesis ..
      next
        case le: False
        have "FindTone_loop_ieee B F N (i + 1) mv mi = Inl e"
          using "1.prems" True Inr le by (simp add: FindTone_loop_ieee_unfold [of _ _ N i mv mi])
        then obtain j where "i + 1 \<le> j \<and> j < N \<and> candidate_Value_ieee B F j = Inl e"
          using "1.IH"(2) [OF True Inr le] by blast
        then have "i \<le> j \<and> j < N \<and> candidate_Value_ieee B F j = Inl e" by simp
        then show ?thesis ..
      qed
    qed
  qed
qed

lemma FindTone_loop_ieee_first_fault:
  assumes "i \<le> k" "k < N" "candidate_Value_ieee B F k = Inl e"
    and "\<forall>j. i \<le> j \<and> j < k \<longrightarrow> (\<exists>x. candidate_Value_ieee B F j = Inr x)"
  shows "FindTone_loop_ieee B F N i mv mi = Inl e"
  using assms
proof (induction B F N i mv mi rule: FindTone_loop_ieee.induct)
  case (1 B F N i mv mi)
  have lt: "i < N" using "1.prems"(1,2) by simp
  show ?case
  proof (cases "i = k")
    case True
    then show ?thesis
      using lt "1.prems"(3) by (simp add: FindTone_loop_ieee_unfold [of _ _ N i])
  next
    case False
    then have ik: "i + 1 \<le> k" using "1.prems"(1) by simp
    obtain x where x: "candidate_Value_ieee B F i = Inr x"
      using "1.prems"(1,4) False by force
    have rest: "\<forall>j. i + 1 \<le> j \<and> j < k \<longrightarrow> (\<exists>x. candidate_Value_ieee B F j = Inr x)"
      using "1.prems"(4) by simp
    show ?thesis
    proof (cases "fp_less mv x")
      case gt: True
      show ?thesis
        using "1.IH"(1) [OF lt x gt ik "1.prems"(2,3) rest] lt x gt
        by (simp add: FindTone_loop_ieee_unfold [of _ _ N i mv mi])
    next
      case le: False
      show ?thesis
        using "1.IH"(2) [OF lt x le ik "1.prems"(2,3) rest] lt x le
        by (simp add: FindTone_loop_ieee_unfold [of _ _ N i mv mi])
    qed
  qed
qed

text \<open>
  The properties of the control flow of \<^verbatim>\<open>FindTone\<close> hold in IEEE arithmetic as they do
  in exact arithmetic: without a candidate the result is 0; with \<open>N \<ge> 1\<close> candidates
  whose reads are all within the arrays it is an index from 0 to \<open>N - 1\<close>; a fault is the
  fault of one of the \<open>N\<close> candidates; and nothing of the buffer is read but the bins of
  the \<open>N\<close> candidates.
\<close>

lemma FindTone_ieee_index_in_range:
  "(N \<le> 0 \<longrightarrow> FindTone_ieee B F N = Inr 0)
   \<and> (0 < N \<and> (\<forall>j. 0 \<le> j \<and> j < N \<longrightarrow> (\<exists>x. candidate_Value_ieee B F j = Inr x))
        \<longrightarrow> (\<exists>r. FindTone_ieee B F N = Inr r \<and> 0 \<le> r \<and> r < N))
   \<and> (FindTone_ieee B F N = Inl e
        \<longrightarrow> (\<exists>j. 0 \<le> j \<and> j < N \<and> candidate_Value_ieee B F j = Inl e))
   \<and> ((\<forall>j f k. 0 \<le> j \<and> j < N \<and> array_read F j = Inr f \<and> bin_index_ieee f = Inr k \<longrightarrow>
           ptr_read_ieee (realp_ieee B) k = ptr_read_ieee (realp_ieee B') k
           \<and> ptr_read_ieee (imagp_ieee B) k = ptr_read_ieee (imagp_ieee B') k)
        \<longrightarrow> FindTone_ieee B F N = FindTone_ieee B' F N)"
proof (intro conjI impI)
  assume "N \<le> 0"
  then show "FindTone_ieee B F N = Inr 0"
    by (simp add: FindTone_ieee_def FindTone_loop_ieee_unfold [of _ _ N 0])
next
  assume a: "0 < N \<and> (\<forall>j. 0 \<le> j \<and> j < N \<longrightarrow> (\<exists>x. candidate_Value_ieee B F j = Inr x))"
  define v where "v = (\<lambda>j. projr (candidate_Value_ieee B F j))"
  have cv: "\<forall>j. 0 \<le> j \<and> j < N \<longrightarrow> candidate_Value_ieee B F j = Inr (v j)"
    using a by (auto simp: v_def)
  obtain r where r: "FindTone_loop_ieee B F N 0 (Finite (- 1)) 0 = Inr r"
    and d: "(r = 0 \<and> (\<forall>j. 0 \<le> j \<and> j < N \<longrightarrow> \<not> fp_less (Finite (- 1)) (v j))) \<or>
        (0 \<le> r \<and> r < N \<and> fp_less (Finite (- 1)) (v r)
           \<and> (\<forall>j. 0 \<le> j \<and> j < N \<longrightarrow> \<not> fp_less (v r) (v j))
           \<and> (\<forall>j. 0 \<le> j \<and> j < r \<longrightarrow> v j = NaN \<or> fp_less (v j) (v r)))"
    using FindTone_loop_ieee_result [OF cv, of "Finite (- 1)" 0] by blast
  have "0 \<le> r \<and> r < N"
    using d a by auto
  then show "\<exists>r. FindTone_ieee B F N = Inr r \<and> 0 \<le> r \<and> r < N"
    using r by (simp add: FindTone_ieee_def)
next
  assume "FindTone_ieee B F N = Inl e"
  then show "\<exists>j. 0 \<le> j \<and> j < N \<and> candidate_Value_ieee B F j = Inl e"
    unfolding FindTone_ieee_def by (rule FindTone_loop_ieee_fault)
next
  assume a: "\<forall>j f k. 0 \<le> j \<and> j < N \<and> array_read F j = Inr f \<and> bin_index_ieee f = Inr k \<longrightarrow>
           ptr_read_ieee (realp_ieee B) k = ptr_read_ieee (realp_ieee B') k
           \<and> ptr_read_ieee (imagp_ieee B) k = ptr_read_ieee (imagp_ieee B') k"
  have "\<forall>j. 0 \<le> j \<and> j < N \<longrightarrow> candidate_Value_ieee B F j = candidate_Value_ieee B' F j"
    using a by (auto simp: candidate_Value_ieee_def split: sum.splits)
  then show "FindTone_ieee B F N = FindTone_ieee B' F N"
    unfolding FindTone_ieee_def by (rule FindTone_loop_ieee_cong)
qed

subsection \<open>The generated signal\<close>

lemma Random_calls_nth:
  "k < n \<Longrightarrow> fst (Random_calls n s) ! k = fst (Random (((\<lambda>t. snd (Random t)) ^^ k) s))"
  by (simp add: Random_calls_eq del: upt_Suc)

lemma Random_calls_seed: "snd (Random_calls n s) = ((\<lambda>t. snd (Random t)) ^^ n) s"
  by (simp add: Random_calls_eq)

lemma to_float_4: "to_float 4 = Finite 4"
  using to_float_exact [of 1 2] by simp

lemma noise_exact: "fp_mul to_float (to_float 4) (Finite (fst (Random s))) = Finite (4 * fst (Random s))"
proof -
  define m where "m = int (unat (snd (Random s)) div 2 ^ 8)"
  have r: "fst (Random s) = of_int m * 2 powi (- 24)"
    by (simp add: Random_fst m_def power_int_minus field_simps)
  have "0 \<le> fst (Random s)" "fst (Random s) < 1"
    using Random_range [of s] by simp_all
  then have b: "0 \<le> m" "m < 2 ^ 24"
    unfolding r by (simp_all add: power_int_minus field_simps zero_le_mult_iff)
  have f: "4 * fst (Random s) = of_int m * 2 powi (- 22)"
    by (simp add: r power_int_minus)
  have "\<bar>of_int m * 2 powi (- 22)\<bar> < (2 :: real) ^ 128"
  proof -
    have "\<bar>of_int m * 2 powi (- 22)\<bar> = 4 * fst (Random s)"
      using b(1) f by (simp add: abs_mult power_int_minus)
    also have "\<dots> < 4" using \<open>fst (Random s) < 1\<close> by simp
    also have "\<dots> < (2 :: real) ^ 128" by simp
    finally show ?thesis .
  qed
  then have "to_float (of_int m * 2 powi (- 22)) = Finite (of_int m * 2 powi (- 22))"
    using b by (intro to_float_exact) simp_all
  then show ?thesis
    by (simp add: to_float_4 f)
qed

lemma noise_loop_eq:
  "noise_loop n s =
     (map (\<lambda>v. Finite (4 * v)) (fst (Random_calls n s)), snd (Random_calls n s))"
proof (induction n arbitrary: s)
  case 0
  show ?case by simp
next
  case (Suc n)
  have "fp_mul to_float (to_float 4) (Finite (fst (Random s))) = Finite (4 * fst (Random s))"
    by (rule noise_exact)
  then show ?case
    by (simp add: Suc split_beta Let_def)
qed

lemma tone_loop_length: "length (tone_loop c_sin f Phase i Signal) = length Signal"
  by (induction Signal arbitrary: i) simp_all

lemma tone_loop_nth:
  "k < length Signal \<Longrightarrow>
     tone_loop c_sin f Phase i Signal ! k = add_tone c_sin f Phase (i + k) (Signal ! k)"
proof (induction Signal arbitrary: i k)
  case Nil
  then show ?case by simp
next
  case (Cons x Signal)
  show ?case
  proof (cases k)
    case 0
    then show ?thesis by simp
  next
    case (Suc m)
    then have "m < length Signal" using Cons.prems by simp
    then show ?thesis
      using Cons.IH [of m "Suc i"] Suc by simp
  qed
qed

lemma generate_signal_eq:
  "generate_signal c_sin F Seed =
     (tone_loop c_sin (snd F)
        (Finite (fst (Random (((\<lambda>t. snd (Random t)) ^^ (SampleLength + 1)) Seed)))) 0
        (tone_loop c_sin (fst F)
           (Finite (fst (Random (((\<lambda>t. snd (Random t)) ^^ SampleLength) Seed)))) 0
           (map (\<lambda>v. Finite (4 * v)) (fst (Random_calls SampleLength Seed)))),
      ((\<lambda>t. snd (Random t)) ^^ (SampleLength + 2)) Seed)"
  by (simp add: generate_signal_def noise_loop_eq Random_calls_seed split_beta Let_def
      del: funpow.simps)
     (simp only: funpow.simps o_apply)

lemma generate_signal_length: "length (fst (generate_signal c_sin F Seed)) = SampleLength"
proof -
  have "length (fst (Random_calls SampleLength Seed)) = SampleLength"
    by (simp add: Random_calls_eq)
  then show ?thesis
    by (simp add: generate_signal_eq tone_loop_length)
qed

text \<open>
  Claim C6, as amended.  The signal has \<open>SampleLength = 256\<close> samples, whatever the
  frequencies and the seed are; the program has no other sample count.  The generator is
  called \<open>SampleLength + 2\<close> times: call \<open>i\<close> gives the noise of sample \<open>i\<close>, the two
  last calls give the two phases.  Sample \<open>i\<close> is \<open>4 * noise\<^sub>i\<close>, which is exact, to
  which the two tones are added in turn by \<open>add_tone\<close>, in the arithmetic of the
  program: the phase \<^verbatim>\<open>i*f / SamplingFrequency + Phase\<close> in \<^verbatim>\<open>float\<close>, every operation
  rounded; its product with \<^verbatim>\<open>TwoPi\<close> and the sine in \<^verbatim>\<open>double\<close>; the sum with the
  sample in \<^verbatim>\<open>double\<close>, rounded to \<^verbatim>\<open>float\<close>.  The frequencies are any two values of
  type \<^verbatim>\<open>float\<close> and are not checked; the signal and the seed left behind are functions
  of the frequencies, the seed and the sine of the library.
\<close>

theorem generate_signal_samples:
  "length (fst (generate_signal c_sin F Seed)) = SampleLength \<and> SampleLength = 256
   \<and> (\<forall>i < SampleLength.
         fst (generate_signal c_sin F Seed) ! i =
           add_tone c_sin (snd F)
             (Finite (fst (Random_calls (SampleLength + 2) Seed) ! (SampleLength + 1))) i
             (add_tone c_sin (fst F)
                (Finite (fst (Random_calls (SampleLength + 2) Seed) ! SampleLength)) i
                (Finite (4 * (fst (Random_calls (SampleLength + 2) Seed) ! i)))))
   \<and> snd (generate_signal c_sin F Seed) = snd (Random_calls (SampleLength + 2) Seed)"
proof (intro conjI allI impI)
  have len: "length (fst (Random_calls SampleLength Seed)) = SampleLength"
    by (simp add: Random_calls_eq)
  show "length (fst (generate_signal c_sin F Seed)) = SampleLength"
    by (simp add: generate_signal_eq tone_loop_length len)
  show "SampleLength = 256"
    by (simp add: SampleLength_def Log2SampleLength_def)
  show "snd (generate_signal c_sin F Seed) = snd (Random_calls (SampleLength + 2) Seed)"
    by (simp only: generate_signal_eq Random_calls_seed snd_conv)
  fix i assume i: "i < SampleLength"
  have i2: "i < SampleLength + 2" using i by simp
  have n: "fst (Random_calls SampleLength Seed) ! i
             = fst (Random_calls (SampleLength + 2) Seed) ! i"
    by (simp only: Random_calls_nth [OF i] Random_calls_nth [OF i2])
  have p0: "fst (Random (((\<lambda>t. snd (Random t)) ^^ SampleLength) Seed))
              = fst (Random_calls (SampleLength + 2) Seed) ! SampleLength"
    by (rule Random_calls_nth [symmetric]) simp
  have p1: "fst (Random (((\<lambda>t. snd (Random t)) ^^ (SampleLength + 1)) Seed))
              = fst (Random_calls (SampleLength + 2) Seed) ! (SampleLength + 1)"
    by (rule Random_calls_nth [symmetric]) simp
  have "fst (generate_signal c_sin F Seed) ! i =
          add_tone c_sin (snd F)
            (Finite (fst (Random (((\<lambda>t. snd (Random t)) ^^ (SampleLength + 1)) Seed)))) i
            (add_tone c_sin (fst F)
               (Finite (fst (Random (((\<lambda>t. snd (Random t)) ^^ SampleLength) Seed)))) i
               (Finite (4 * (fst (Random_calls SampleLength Seed) ! i))))"
    using i by (simp add: generate_signal_eq tone_loop_nth tone_loop_length len)
  then show "fst (generate_signal c_sin F Seed) ! i =
           add_tone c_sin (snd F)
             (Finite (fst (Random_calls (SampleLength + 2) Seed) ! (SampleLength + 1))) i
             (add_tone c_sin (fst F)
                (Finite (fst (Random_calls (SampleLength + 2) Seed) ! SampleLength)) i
                (Finite (4 * (fst (Random_calls (SampleLength + 2) Seed) ! i))))"
    by (simp only: n p0 p1)
qed

theorem generate_signal_samples_witness:
  "length (fst (generate_signal sin (Finite 1209, Finite 697) 1)) = 256
   \<and> fst (generate_signal sin (Finite 1209, Finite 697) 1) ! 0 =
       add_tone sin (Finite 697) (Finite (fst (Random_calls 258 1) ! 257)) 0
         (add_tone sin (Finite 1209) (Finite (fst (Random_calls 258 1) ! 256)) 0
            (Finite (4 * (3967065 / 16777216))))"
proof -
  have sl: "SampleLength = 256"
    by (simp add: SampleLength_def Log2SampleLength_def)
  have "fst (Random_calls 258 1) ! 0 = fst (Random 1)"
    using Random_calls_nth [of 0 258 1] by simp
  also have "\<dots> = 3967065 / 16777216"
    by (simp add: Random_def Let_def drop_bit_eq_div)
  finally have d0: "fst (Random_calls 258 1) ! 0 = 3967065 / 16777216" .
  have pos: "0 < SampleLength" by (simp add: sl)
  note t = generate_signal_samples [of sin "(Finite 1209, Finite 697)" 1]
  note t0 = t [THEN conjunct2, THEN conjunct2, THEN conjunct1, rule_format, OF pos]
  show ?thesis
    using t [THEN conjunct1] t0 by (simp add: sl d0)
qed

lemma to_double_eval:
  assumes "2 powi k \<le> \<bar>x\<bar>" "\<bar>x\<bar> < 2 powi (k + 1)" "- 1022 \<le> k"
    and "round_even (x / 2 powi (k - 52)) = m"
    and "\<bar>of_int m * 2 powi (k - 52)\<bar> < (2 :: real) ^ 1024"
  shows "to_double x = Finite (of_int m * 2 powi (k - 52))"
proof -
  have "round_binary 53 (- 1022) x = of_int m * 2 powi (k - 52)"
    using round_binary_eval [OF assms(1,2,3), of 53] assms(4) by simp
  then show ?thesis
    using assms(5) by (simp add: to_double_def to_format_def Let_def)
qed

text \<open>\<^verbatim>\<open>TwoPi\<close> is \<open>7074237752028440 * 2 ^ - 50\<close>, which is \<open>6.283185307179586\<dots>\<close>\<close>

lemma TwoPi_value: "TwoPi = Finite (884279719003555 / 140737488355328)"
  unfolding TwoPi_def
  using to_double_eval [of 2 "0x3243F6A8885A308D313198A2E03707344A / 16 ^ 33 * 2"
      7074237752028440]
  by (simp add: power_int_minus round_even_def Let_def)

lemma tone_phase_examples:
  "tone_phase (Finite 214040576) (Finite (1 / 4)) 255 = Finite 16711680"
  "tone_phase (Finite 214040576) (Finite 0) 255 = Finite 16711680"
proof -
  have a: "to_float 255 = Finite 255"
    using to_float_exact [of 255 0] by simp
  have b: "to_float 54580346880 = Finite 54580346880"
    using to_float_exact [of 832830 16] by simp
  have c: "to_float 16711680 = Finite 16711680"
    using to_float_exact [of 255 16] by simp
  have "round_binary 24 (- 126) (66846721 / 4) =
          of_int (round_even ((66846721 / 4) / 2 powi (23 - (int 24 - 1)))) * 2 powi (23 - (int 24 - 1))"
    by (rule round_binary_eval) simp_all
  also have "\<dots> = 16711680"
    by (simp add: round_even_def Let_def)
  finally have d: "to_float (66846721 / 4) = Finite 16711680"
    by (simp add: to_float_def to_format_def Let_def)
  show "tone_phase (Finite 214040576) (Finite (1 / 4)) 255 = Finite 16711680"
    by (simp add: tone_phase_def constants_real a b c d)
  show "tone_phase (Finite 214040576) (Finite 0) 255 = Finite 16711680"
    by (simp add: tone_phase_def constants_real a b c)
qed

lemma sin_examples:
  "sin (2 * pi * (real 255 * 214040576 / 3266 + 1 / 4)) = 1"
  "sin (2 * pi * (real 255 * 214040576 / 3266 + 0)) = 0"
proof -
  have "2 * pi * (real 255 * 214040576 / 3266 + 1 / 4) = pi / 2 + 2 * real (16711680 :: nat) * pi"
    by (simp add: algebra_simps)
  then show "sin (2 * pi * (real 255 * 214040576 / 3266 + 1 / 4)) = 1"
    by (simp only: sin_add sin_2npi cos_2npi) simp
  have "2 * pi * (real 255 * 214040576 / 3266 + 0) = 2 * real (16711680 :: nat) * pi"
    by (simp add: algebra_simps)
  then show "sin (2 * pi * (real 255 * 214040576 / 3266 + 0)) = 0"
    by (simp only: sin_2npi)
qed

lemma fp_add_NaN: "fp_add rnd a NaN = NaN"
  by (cases a) (simp_all add: fp_add_def)

lemma add_tone_overflow: "add_tone c_sin (Finite (2 ^ 127)) (Finite p) 2 x = NaN"
proof -
  have a: "to_float 2 = Finite 2"
    using to_float_exact [of 1 1] by simp
  have "round_binary 24 (- 126) (of_int 1 * 2 powi 128) = of_int 1 * 2 powi 128"
    by (rule round_binary_exact) simp_all
  then have "to_float (2 ^ 128) = PlusInfinity"
    by (simp add: to_float_def to_format_def Let_def)
  then have b: "to_float 340282366920938463463374607431768211456 = PlusInfinity"
    by simp
  have "tone_phase (Finite (2 ^ 127)) (Finite p) 2 = PlusInfinity"
    by (simp add: tone_phase_def a b fp_div_def fp_add_def constants_real)
  then have "fp_sin c_sin (fp_mul to_double (tone_phase (Finite (2 ^ 127)) (Finite p) 2) TwoPi)
      = NaN"
    by (simp add: TwoPi_value fp_mul_def fp_sin_def)
  then show ?thesis
    by (simp only: add_tone_def fp_add_NaN) (simp add: fp_round_def)
qed

lemma add_tone_NaN: "add_tone c_sin f Phase i NaN = NaN"
  by (simp add: add_tone_def fp_add_def fp_round_def)

lemma generate_signal_overflow: "fst (generate_signal c_sin (Finite (2 ^ 127), f1) Seed) ! 2 = NaN"
proof -
  define p0 where "p0 = fst (Random (((\<lambda>t. snd (Random t)) ^^ SampleLength) Seed))"
  define P1 where
    "P1 = Finite (fst (Random (((\<lambda>t. snd (Random t)) ^^ (SampleLength + 1)) Seed)))"
  define S0 where "S0 = map (\<lambda>v. Finite (4 * v)) (fst (Random_calls SampleLength Seed))"
  define S1 where "S1 = tone_loop c_sin (Finite (2 ^ 127)) (Finite p0) 0 S0"
  have "length (fst (Random_calls SampleLength Seed)) = SampleLength"
    by (simp add: Random_calls_eq)
  then have l0: "2 < length S0"
    by (simp add: S0_def SampleLength_def Log2SampleLength_def)
  then have l1: "2 < length S1"
    by (simp only: S1_def tone_loop_length)
  have "S1 ! 2 = add_tone c_sin (Finite (2 ^ 127)) (Finite p0) (0 + 2) (S0 ! 2)"
    unfolding S1_def by (rule tone_loop_nth [OF l0])
  then have "S1 ! 2 = NaN"
    by (simp only: add_0 add_tone_overflow)
  moreover have "tone_loop c_sin f1 P1 0 S1 ! 2 = add_tone c_sin f1 P1 (0 + 2) (S1 ! 2)"
    by (rule tone_loop_nth [OF l1])
  ultimately have "tone_loop c_sin f1 P1 0 S1 ! 2 = NaN"
    by (simp only: add_tone_NaN)
  then show ?thesis
    by (simp only: generate_signal_eq fst_conv snd_conv S1_def S0_def p0_def P1_def)
qed

lemma add_tone_ignores_phase:
  "add_tone c_sin (Finite 214040576) (Finite (1 / 4)) 255 x =
     add_tone c_sin (Finite 214040576) (Finite 0) 255 x"
  by (simp add: add_tone_def tone_phase_examples)

text \<open>
  The claim as it was stated fails, since the samples are computed in the arithmetic of
  the program.  For the frequency \<open>2 ^ 127\<close> the product \<^verbatim>\<open>i*f\<close> is an infinity from
  sample 2 on, its sine is NaN and so is the sample, whatever the seed, the other
  frequency and the sine of the library are.  For the frequency \<open>3266 * 2 ^ 16\<close> and
  sample 255, the phase that the program takes the sine of is \<open>16711680\<close> both for the
  random phase \<open>1 / 4\<close> and for the random phase 0: the sum in \<^verbatim>\<open>float\<close> drops the
  random phase, so the two samples are the same, whereas the sines of the claim are 1
  and 0.
\<close>

theorem samples_are_rounded:
  "fst (generate_signal sin (Finite (2 ^ 127), Finite 697) 1) ! 2 = NaN
   \<and> tone_phase (Finite 214040576) (Finite (1 / 4)) 255 = Finite 16711680
   \<and> tone_phase (Finite 214040576) (Finite 0) 255 = Finite 16711680
   \<and> sin (2 * pi * (real 255 * 214040576 / 3266 + 1 / 4)) = 1
   \<and> sin (2 * pi * (real 255 * 214040576 / 3266 + 0)) = 0"
  using generate_signal_overflow [of sin "Finite 697" 1] tone_phase_examples sin_examples
  by simp

subsection \<open>The buffer of \<^verbatim>\<open>Demonstrate\<close>\<close>

lemma ctoz_length:
  "length (fst (ctoz xs)) = length xs div 2 \<and> length (snd (ctoz xs)) = length xs div 2"
  by (induction xs rule: ctoz.induct) (auto split: prod.splits)

text \<open>
  \<^verbatim>\<open>Buffer.imagp\<close> points at element \<open>SampleLength / 2 = 128\<close> of \<^verbatim>\<open>BufferMemory\<close>, which
  has \<open>SampleLength = 256\<close> elements, so \<^verbatim>\<open>Buffer.imagp[index]\<close> is within the allocation
  for an index below 128 only.  The index of the frequency 1633 of \<^verbatim>\<open>DTMF0\<close>, half of
  the sampling frequency, is 128: the first search of \<^verbatim>\<open>Demonstrate\<close> reads
  \<^verbatim>\<open>BufferMemory[256]\<close>, whatever the key and the seed are, for a transform that leaves
  the size of the buffer as it is.
\<close>

lemma Demonstrate_reads_past_BufferMemory:
  assumes "\<forall>m. length (fft_zrip m) = length m"
  shows "Demonstrate c_sin fft_zrip F Seed = Inl OutOfBounds"
proof -
  define G where "G = generate_signal c_sin (Finite (fst (Frequency F)), Finite (snd (Frequency F))) Seed"
  define M where "M = fft_zrip (fst (ctoz (fst G)) @ snd (ctoz (fst G)))"
  define B where "B = \<lparr>realp_ieee = (M, 0 :: int), imagp_ieee = (M, int (SampleLength div 2))\<rparr>"
  have sl: "SampleLength = 256"
    by (simp add: SampleLength_def Log2SampleLength_def)
  have "length (fst G) = 256"
    using generate_signal_length [of c_sin _ Seed] by (simp add: G_def sl)
  then have lm: "length M = 256"
    using assms ctoz_length [of "fst G"] by (simp add: M_def)
  have f: "array_read (map Finite DTMF0) 0 = Inr (Finite 1209)"
    "array_read (map Finite DTMF0) 1 = Inr (Finite 1336)"
    "array_read (map Finite DTMF0) 2 = Inr (Finite 1477)"
    "array_read (map Finite DTMF0) 3 = Inr (Finite 1633)"
    by (simp_all add: array_read_def DTMF0_def)
  have r3: "ptr_read_ieee (realp_ieee B) 128 = Inr (M ! 128)"
    by (simp add: B_def ptr_read_ieee_def array_read_def lm)
  have i3: "ptr_read_ieee (imagp_ieee B) 128 = Inl OutOfBounds"
    by (simp add: B_def ptr_read_ieee_def array_read_def lm sl)
  have c3: "candidate_Value_ieee B (map Finite DTMF0) 3 = Inl OutOfBounds"
    by (simp add: candidate_Value_ieee_def f bin_index_ieee_1633 r3 i3)
  have rd: "ptr_read_ieee (realp_ieee B) k = Inr (M ! nat k)
      \<and> ptr_read_ieee (imagp_ieee B) k = Inr (M ! nat (128 + k))" if "0 \<le> k \<and> k < 128" for k
    using that by (simp add: B_def ptr_read_ieee_def array_read_def lm sl)
  have c: "\<exists>x. candidate_Value_ieee B (map Finite DTMF0) j = Inr x" if "0 \<le> j \<and> j < 3" for j :: int
  proof -
    have "j = 0 \<or> j = 1 \<or> j = 2" using that by auto
    then show ?thesis
      using rd [of 95] rd [of 105] rd [of 116]
      by (auto simp: candidate_Value_ieee_def f bin_index_ieee_1209 bin_index_ieee_1336
          bin_index_ieee_1477)
  qed
  have "FindTone_loop_ieee B (map Finite DTMF0) 4 0 (Finite (- 1)) 0 = Inl OutOfBounds"
    by (rule FindTone_loop_ieee_first_fault [where k = 3]) (use c3 c in simp_all)
  then have "FindTone_ieee B (map Finite DTMF0) (int (length DTMF0)) = Inl OutOfBounds"
    by (simp add: FindTone_ieee_def DTMF0_def)
  then show ?thesis
    unfolding Demonstrate_def Let_def case_prod_beta B_def M_def G_def by simp
qed

subsection \<open>The main program\<close>

lemma toupper_NUL: "toupper c = NUL \<longleftrightarrow> c = NUL"
proof -
  define t where "t = map_of (zip ''abcdefghijklmnopqrstuvwxyz'' ''ABCDEFGHIJKLMNOPQRSTUVWXYZ'')"
  have up: "toupper k = (case t k of None \<Rightarrow> k | Some u \<Rightarrow> u)" for k
    by (simp only: toupper_def t_def)
  have nul: "t NUL = None"
    by (simp add: t_def NUL_def)
  show ?thesis
  proof (cases "t c")
    case None
    then show ?thesis by (simp add: up)
  next
    case (Some u)
    then have "(c, u) \<in> set (zip ''abcdefghijklmnopqrstuvwxyz'' ''ABCDEFGHIJKLMNOPQRSTUVWXYZ'')"
      unfolding t_def by (rule map_of_SomeD)
    then have "u \<in> set ''ABCDEFGHIJKLMNOPQRSTUVWXYZ''"
      by (rule set_zip_rightD)
    then have "u \<noteq> NUL"
      by (auto simp: NUL_def)
    moreover have "c \<noteq> NUL"
      using Some nul by auto
    ultimately show ?thesis
      using Some by (simp add: up)
  qed
qed

lemma Convert_no_fault: "Key \<noteq> NUL \<Longrightarrow> \<exists>F. ConvertKeyToFrequencies Key = Inr F"
proof (cases "Key \<in> set Keys")
  case True
  then show ?thesis using Convert_valid by blast
next
  case False
  assume "Key \<noteq> NUL"
  with False show ?thesis by (simp add: Convert_unknown)
qed

lemma argument_keys_total: "\<exists>out. argument_keys p = Inr out"
proof (induction p)
  case Nil
  show ?case by simp
next
  case (Cons c p)
  show ?case
  proof (cases "c = NUL")
    case True
    then show ?thesis by simp
  next
    case False
    then have "toupper c \<noteq> NUL" by (simp add: toupper_NUL)
    then obtain F where "ConvertKeyToFrequencies (toupper c) = Inr F"
      using Convert_no_fault by blast
    with False Cons show ?thesis by auto
  qed
qed

lemma argument_keys_append:
  "NUL \<notin> set pre \<Longrightarrow> argument_keys pre = Inr a \<Longrightarrow> argument_keys rest = Inr b \<Longrightarrow>
     argument_keys (pre @ rest) = Inr (a @ b)"
proof (induction pre arbitrary: a)
  case Nil
  then show ?case by simp
next
  case (Cons c pre)
  then show ?case
    by (auto split: sum.splits if_splits)
qed

lemma argument_keys_unknown:
  assumes "c \<noteq> NUL" "toupper c \<notin> set Keys" "argument_keys post = Inr out"
  shows "argument_keys (c # post) = Inr (NotRecognized c # out)"
proof -
  have "toupper c \<noteq> NUL" using assms(1) by (simp add: toupper_NUL)
  then have "ConvertKeyToFrequencies (toupper c) = Inr \<lparr>Frequency = (0, 0)\<rparr>"
    using assms(2) by (simp add: Convert_unknown)
  then show ?thesis using assms(1,3) by simp
qed

lemma argument_keys_known:
  assumes "toupper c \<in> set Keys" "c \<noteq> NUL" "argument_keys post = Inr out"
    "ConvertKeyToFrequencies (toupper c) = Inr F"
  shows "argument_keys (c # post) = Inr (Simulating c # Demonstration F # out)"
proof -
  have "fst (Frequency F) \<noteq> 0"
    using Convert_valid [OF assms(1)] assms(4) by auto
  then show ?thesis using assms(2,3,4) by simp
qed

lemma rest_of_line_skip:
  "newline \<notin> set line \<Longrightarrow>
     rest_of_line (line @ newline # rest) =
       (case prompt_loop rest of Inl e \<Rightarrow> Inl e | Inr out \<Rightarrow> Inr (Prompt # out))"
  by (induction line) auto

lemma isspace_newline: "isspace newline"
  by (simp add: isspace_def newline_def)

lemma prompt_loop_key:
  assumes "\<not> isspace c" "newline \<notin> set line" "ConvertKeyToFrequencies (toupper c) = Inr F"
  shows "interactive_keys (c # line @ newline # rest) =
     (case interactive_keys rest of
        Inl e \<Rightarrow> Inl e
      | Inr out \<Rightarrow>
          Inr (Prompt # (if fst (Frequency F) \<noteq> 0 then [Demonstration F] else []) @ out))"
proof -
  have "c \<noteq> newline" using assms(1) isspace_newline by auto
  then show ?thesis
    using assms by (simp add: interactive_keys_def rest_of_line_skip split: sum.splits)
qed

lemma toupper_abcd:
  assumes "(l, u) \<in> set (zip ''abcd'' ''ABCD'')"
  shows "toupper l = u \<and> u \<in> set Keys \<and> l \<notin> set Keys \<and> l \<noteq> NUL \<and> \<not> isspace l"
proof -
  have "(l, u) = (CHR ''a'', CHR ''A'') \<or> (l, u) = (CHR ''b'', CHR ''B'')
      \<or> (l, u) = (CHR ''c'', CHR ''C'') \<or> (l, u) = (CHR ''d'', CHR ''D'')"
    using assms by simp
  then show ?thesis
    by (elim disjE) (simp_all add: toupper_def Keys_def NUL_def isspace_def)
qed

text \<open>
  Claim C8, as amended.  Let \<open>c\<close> be a character, not the null character, whose
  upper-case form is not one of the sixteen keys.  In an argument \<open>pre @ c # post\<close> the
  program does for \<open>c\<close> nothing but report that the key is not recognized, between what
  it does for \<open>pre\<close> and what it does for \<open>post\<close>: \<^verbatim>\<open>Demonstrate\<close> is not called
  for \<open>c\<close> and the keys after it are processed.  In the interactive mode a line that
  starts with \<open>c\<close> (not white space) adds nothing but the next prompt to what the
  program does on the rest of the input: the key is skipped without a message.
\<close>

theorem unrecognized_key_is_skipped:
  assumes "c \<noteq> NUL" and "toupper c \<notin> set Keys" and "NUL \<notin> set pre"
  shows "(\<exists>out1 out2. main [prog, pre] input = Inr (out1, 0)
            \<and> main [prog, post] input = Inr (out2, 0)
            \<and> main [prog, pre @ c # post] input = Inr (out1 @ NotRecognized c # out2, 0))
         \<and> (\<not> isspace c \<and> newline \<notin> set line \<longrightarrow>
               main [prog] (c # line @ newline # rest) =
                 (case main [prog] rest of
                    Inl e \<Rightarrow> Inl e
                  | Inr (out, status) \<Rightarrow> Inr (Prompt # out, status)))"
proof (intro conjI impI)
  obtain out1 where o1: "argument_keys pre = Inr out1"
    using argument_keys_total by blast
  obtain out2 where o2: "argument_keys post = Inr out2"
    using argument_keys_total by blast
  have "argument_keys (pre @ c # post) = Inr (out1 @ NotRecognized c # out2)"
    using argument_keys_append [OF assms(3) o1 argument_keys_unknown [OF assms(1,2) o2]] .
  then show "\<exists>out1 out2. main [prog, pre] input = Inr (out1, 0)
            \<and> main [prog, post] input = Inr (out2, 0)
            \<and> main [prog, pre @ c # post] input = Inr (out1 @ NotRecognized c # out2, 0)"
    using o1 o2 by (simp add: main_def)
next
  assume i: "\<not> isspace c \<and> newline \<notin> set line"
  have "toupper c \<noteq> NUL" using assms(1) by (simp add: toupper_NUL)
  then have F: "ConvertKeyToFrequencies (toupper c) = Inr \<lparr>Frequency = (0, 0)\<rparr>"
    using assms(2) by (simp add: Convert_unknown)
  show "main [prog] (c # line @ newline # rest) =
             (case main [prog] rest of
                Inl e \<Rightarrow> Inl e
              | Inr (out, status) \<Rightarrow> Inr (Prompt # out, status))"
    using prompt_loop_key [OF i [THEN conjunct1] i [THEN conjunct2] F, of rest]
    by (simp add: main_def split: sum.splits)
qed

theorem unrecognized_key_is_skipped_witness:
  "main [''DTMF'', ''1x2''] [] =
     Inr ([Simulating (CHR ''1''), Demonstration \<lparr>Frequency = (1209, 697)\<rparr>,
           NotRecognized (CHR ''x''),
           Simulating (CHR ''2''), Demonstration \<lparr>Frequency = (1336, 697)\<rparr>], 0)
   \<and> main [''DTMF''] (CHR ''x'' # '' y'' @ newline # ''5'') =
       Inr ([Prompt, Prompt, Demonstration \<lparr>Frequency = (1336, 770)\<rparr>, EndLine], 0)"
proof -
  have h: "CHR ''x'' \<noteq> NUL" "toupper (CHR ''x'') \<notin> set Keys" "NUL \<notin> set ''1''"
    and i: "\<not> isspace (CHR ''x'') \<and> newline \<notin> set '' y''"
    by (simp_all add: NUL_def toupper_def Keys_def isspace_def newline_def)
  have one: "main [''DTMF'', ''1''] [] =
      Inr ([Simulating (CHR ''1''), Demonstration \<lparr>Frequency = (1209, 697)\<rparr>], 0)"
    and two: "main [''DTMF'', ''2''] [] =
      Inr ([Simulating (CHR ''2''), Demonstration \<lparr>Frequency = (1336, 697)\<rparr>], 0)"
    and five: "main [''DTMF''] ''5'' =
      Inr ([Prompt, Demonstration \<lparr>Frequency = (1336, 770)\<rparr>, EndLine], 0)"
    by (simp_all add: main_def interactive_keys_def toupper_def NUL_def isspace_def newline_def
        ConvertKeyToFrequencies_def Keys_def DTMF0_def DTMF1_def array_read_def)
  note t = unrecognized_key_is_skipped [OF h, of "''DTMF''" "[]" "''2''" "'' y''" "''5''"]
  show ?thesis
    using t [THEN conjunct1] t [THEN conjunct2, rule_format, OF i] one two five
    by auto
qed

text \<open>
  The claim as it was stated fails for a character that is not in the table but whose
  upper-case form is: for the argument \<open>a\<close> the program calls \<^verbatim>\<open>Demonstrate\<close>.
\<close>

theorem lower_case_key_is_demonstrated:
  "CHR ''a'' \<notin> set Keys
   \<and> main [''DTMF'', ''a''] [] =
       Inr ([Simulating (CHR ''a''), Demonstration \<lparr>Frequency = (1633, 697)\<rparr>], 0)"
  by (simp add: main_def toupper_def NUL_def ConvertKeyToFrequencies_def Keys_def
      DTMF0_def DTMF1_def array_read_def)

text \<open>
  Claim C9.  A lower-case letter \<open>l\<close> of \<open>a\<close> to \<open>d\<close>, with \<open>u\<close> its upper-case
  letter, is not in the table, and is looked up as \<open>u\<close>: the frequency pair is that of
  \<open>u\<close> and it is valid.  In an argument the program announces the key as typed and calls
  \<^verbatim>\<open>Demonstrate\<close> with the pair, then goes on; in the interactive mode it calls
  \<^verbatim>\<open>Demonstrate\<close> with the pair, skips the rest of the line and prompts again.
\<close>

theorem lower_case_keys_are_folded:
  assumes "(l, u) \<in> set (zip ''abcd'' ''ABCD'')" and "newline \<notin> set line"
  shows "toupper l = u \<and> l \<notin> set Keys \<and> u \<in> set Keys
    \<and> (\<exists>F. ConvertKeyToFrequencies (toupper l) = Inr F \<and> ConvertKeyToFrequencies u = Inr F
          \<and> fst (Frequency F) \<noteq> 0
          \<and> (\<exists>out. main [prog, post] input = Inr (out, 0)
                \<and> main [prog, l # post] input = Inr (Simulating l # Demonstration F # out, 0))
          \<and> main [prog] (l # line @ newline # rest) =
              (case main [prog] rest of
                 Inl e \<Rightarrow> Inl e
               | Inr (out, status) \<Rightarrow> Inr (Prompt # Demonstration F # out, status)))"
proof -
  note t = toupper_abcd [OF assms(1)]
  obtain F where F: "ConvertKeyToFrequencies u = Inr F" "fst (Frequency F) \<noteq> 0"
    using Convert_valid t by blast
  obtain out where o: "argument_keys post = Inr out"
    using argument_keys_total by blast
  have Fl: "ConvertKeyToFrequencies (toupper l) = Inr F"
    using F t by simp
  have a: "argument_keys (l # post) = Inr (Simulating l # Demonstration F # out)"
    using argument_keys_known [of l post out F] t o Fl by simp
  have b: "main [prog] (l # line @ newline # rest) =
              (case main [prog] rest of
                 Inl e \<Rightarrow> Inl e
               | Inr (out, status) \<Rightarrow> Inr (Prompt # Demonstration F # out, status))"
    using prompt_loop_key [of l line F rest] t assms(2) Fl F(2)
    by (simp add: main_def split: sum.splits)
  have c: "\<exists>out. main [prog, post] input = Inr (out, 0)
                \<and> main [prog, l # post] input = Inr (Simulating l # Demonstration F # out, 0)"
    using a o by (simp add: main_def)
  show ?thesis
    using t F Fl b c by blast
qed

theorem lower_case_keys_are_folded_witness:
  "toupper (CHR ''c'') = CHR ''C''
   \<and> ConvertKeyToFrequencies (CHR ''C'') = Inr \<lparr>Frequency = (1633, 852)\<rparr>
   \<and> main [''DTMF'', ''c''] [] =
       Inr ([Simulating (CHR ''c''), Demonstration \<lparr>Frequency = (1633, 852)\<rparr>], 0)
   \<and> main [''DTMF''] (CHR ''c'' # '' '' @ newline # []) =
       Inr ([Prompt, Demonstration \<lparr>Frequency = (1633, 852)\<rparr>, Prompt, EndLine], 0)"
proof -
  have h: "(CHR ''c'', CHR ''C'') \<in> set (zip ''abcd'' ''ABCD'')" "newline \<notin> set '' ''"
    by (simp_all add: newline_def)
  have C: "ConvertKeyToFrequencies (CHR ''C'') = Inr \<lparr>Frequency = (1633, 852)\<rparr>"
    by (simp add: ConvertKeyToFrequencies_def Keys_def DTMF0_def DTMF1_def array_read_def)
  have e: "main [''DTMF'', []] [] = Inr ([], 0)" "main [''DTMF''] [] = Inr ([Prompt, EndLine], 0)"
    by (simp_all add: main_def interactive_keys_def)
  show ?thesis
    using lower_case_keys_are_folded [OF h, of "''DTMF''" "[]" "[]" "[]"] C e
    by auto
qed

end
